theory Spec2Isabelle
  imports Main "HOL-Library.AList" "HOL-Library.Sublist"
begin

section \<open>Python values\<close>

text \<open>
  The program is \<^verbatim>\<open>src/main.py\<close>: a bulk updater of image alt texts in a VTEX catalog.
  Python \<^verbatim>\<open>str\<close> values are modelled as \<^typ>\<open>string\<close>, every \<^typ>\<open>char\<close> read as one
  code point below 256 (Latin-1). JSON documents are values of \<open>jval\<close>; numbers are the
  integers. A Python \<^verbatim>\<open>dict\<close> is an association list in insertion order.
\<close>

datatype jval =
    JNull
  | JBool bool
  | JInt int
  | JStr string
  | JList "jval list"
  | JObj "(string \<times> jval) list"

type_synonym dict = "(string \<times> jval) list"

text \<open>Python's truth value of an object, as \<^verbatim>\<open>if x:\<close>, \<^verbatim>\<open>not x\<close> and \<^verbatim>\<open>or\<close> read it.\<close>

fun truthy :: "jval \<Rightarrow> bool" where
  "truthy JNull = False"
| "truthy (JBool b) = b"
| "truthy (JInt i) = (i \<noteq> 0)"
| "truthy (JStr s) = (s \<noteq> [])"
| "truthy (JList xs) = (xs \<noteq> [])"
| "truthy (JObj kvs) = (kvs \<noteq> [])"

text \<open>\<^verbatim>\<open>a or b\<close>: the first operand when it is true, else the second.\<close>

definition py_or :: "jval \<Rightarrow> jval \<Rightarrow> jval" where
  "py_or a b = (if truthy a then a else b)"

text \<open>\<^verbatim>\<open>d.get(k)\<close> (\<^verbatim>\<open>None\<close> when the key is missing) and \<^verbatim>\<open>d.get(k, default)\<close>.\<close>

definition dict_get :: "dict \<Rightarrow> string \<Rightarrow> jval" where
  "dict_get d k = (case map_of d k of None \<Rightarrow> JNull | Some v \<Rightarrow> v)"

definition dict_get_default :: "dict \<Rightarrow> string \<Rightarrow> jval \<Rightarrow> jval" where
  "dict_get_default d k dflt = (case map_of d k of None \<Rightarrow> dflt | Some v \<Rightarrow> v)"

text \<open>
  The exceptions the program can meet. All of them are subclasses of Python's
  \<^verbatim>\<open>Exception\<close>; \<^verbatim>\<open>Inl e\<close> of a result \<open>exn + 'a\<close> is "raised \<open>e\<close>".
\<close>

datatype exn =
    Timeout
  | ConnectionError
  | ValueError
  | OverflowError
  | TypeError
  | AttributeError
  | JSONDecodeError
  | OtherError

section \<open>Strings\<close>

text \<open>The code points below 256 for which \<^verbatim>\<open>str.isspace\<close> holds; \<^verbatim>\<open>\s\<close> of \<^verbatim>\<open>re\<close> matches the same.\<close>

definition is_space :: "char \<Rightarrow> bool" where
  "is_space c = (c \<in> set [CHR 0x09, CHR 0x0A, CHR 0x0B, CHR 0x0C, CHR 0x0D,
     CHR 0x1C, CHR 0x1D, CHR 0x1E, CHR 0x1F, CHR 0x20, CHR 0x85, CHR 0xA0])"

text \<open>\<^verbatim>\<open>s.strip()\<close>\<close>

definition str_strip :: "string \<Rightarrow> string" where
  "str_strip s = rev (dropWhile is_space (rev (dropWhile is_space s)))"

text \<open>\<^verbatim>\<open>s.lower()\<close> on ASCII text (\<open>slugify\<close> lowers after the text is made ASCII).\<close>

definition lower_char :: "char \<Rightarrow> char" where
  "lower_char c =
     (case map_of (zip ''ABCDEFGHIJKLMNOPQRSTUVWXYZ'' ''abcdefghijklmnopqrstuvwxyz'') c of
        None \<Rightarrow> c
      | Some l \<Rightarrow> l)"

definition str_lower :: "string \<Rightarrow> string" where
  "str_lower s = map lower_char s"

text \<open>
  \<^verbatim>\<open>unicodedata.normalize('NFKD', text).encode('ascii', 'ignore').decode('utf-8')\<close>:
  each code point is replaced by its compatibility decomposition and the code points
  above 127 are dropped. The table is that of \<^verbatim>\<open>unicodedata\<close> for the code points
  128 to 255: what is left of each once its combining marks and other non-ASCII parts are
  dropped. A code point that is not in the table leaves nothing.
\<close>

definition nfkd_table :: "(char \<times> string) list" where
  "nfkd_table =
    [(CHR 0xA0, '' ''), (CHR 0xA8, '' ''), (CHR 0xAF, '' ''), (CHR 0xB4, '' ''),
     (CHR 0xB8, '' ''),
     (CHR 0xAA, ''a''), (CHR 0xBA, ''o''),
     (CHR 0xB2, ''2''), (CHR 0xB3, ''3''), (CHR 0xB9, ''1''),
     (CHR 0xBC, ''14''), (CHR 0xBD, ''12''), (CHR 0xBE, ''34''),
     (CHR 0xC0, ''A''), (CHR 0xC1, ''A''), (CHR 0xC2, ''A''), (CHR 0xC3, ''A''),
     (CHR 0xC4, ''A''), (CHR 0xC5, ''A''), (CHR 0xC7, ''C''),
     (CHR 0xC8, ''E''), (CHR 0xC9, ''E''), (CHR 0xCA, ''E''), (CHR 0xCB, ''E''),
     (CHR 0xCC, ''I''), (CHR 0xCD, ''I''), (CHR 0xCE, ''I''), (CHR 0xCF, ''I''),
     (CHR 0xD1, ''N''),
     (CHR 0xD2, ''O''), (CHR 0xD3, ''O''), (CHR 0xD4, ''O''), (CHR 0xD5, ''O''),
     (CHR 0xD6, ''O''),
     (CHR 0xD9, ''U''), (CHR 0xDA, ''U''), (CHR 0xDB, ''U''), (CHR 0xDC, ''U''),
     (CHR 0xDD, ''Y''),
     (CHR 0xE0, ''a''), (CHR 0xE1, ''a''), (CHR 0xE2, ''a''), (CHR 0xE3, ''a''),
     (CHR 0xE4, ''a''), (CHR 0xE5, ''a''), (CHR 0xE7, ''c''),
     (CHR 0xE8, ''e''), (CHR 0xE9, ''e''), (CHR 0xEA, ''e''), (CHR 0xEB, ''e''),
     (CHR 0xEC, ''i''), (CHR 0xED, ''i''), (CHR 0xEE, ''i''), (CHR 0xEF, ''i''),
     (CHR 0xF1, ''n''),
     (CHR 0xF2, ''o''), (CHR 0xF3, ''o''), (CHR 0xF4, ''o''), (CHR 0xF5, ''o''),
     (CHR 0xF6, ''o''),
     (CHR 0xF9, ''u''), (CHR 0xFA, ''u''), (CHR 0xFB, ''u''), (CHR 0xFC, ''u''),
     (CHR 0xFD, ''y''), (CHR 0xFF, ''y'')]"

definition nfkd_ascii_char :: "char \<Rightarrow> string" where
  "nfkd_ascii_char c =
     (if (of_char c :: nat) < 128 then [c]
      else case map_of nfkd_table c of None \<Rightarrow> [] | Some r \<Rightarrow> r)"

definition nfkd_ascii :: "string \<Rightarrow> string" where
  "nfkd_ascii s = concat (map nfkd_ascii_char s)"

text \<open>
  \<^verbatim>\<open>re.sub(r'[\s]+', '-', text)\<close>: every maximal run of whitespace becomes one hyphen.
\<close>

function sub_space_runs :: "string \<Rightarrow> string" where
  "sub_space_runs [] = []"
| "sub_space_runs (c # cs) =
     (if is_space c then CHR ''-'' # sub_space_runs (dropWhile is_space cs)
      else c # sub_space_runs cs)"
  by pat_completeness auto
termination
  by (relation "measure length") (auto simp: length_dropWhile_le less_Suc_eq_le)

text \<open>
  \<^verbatim>\<open>re.sub(r'[^a-z0-9\-]', '', text)\<close> deletes every character outside this alphabet.
\<close>

definition slug_char :: "char \<Rightarrow> bool" where
  "slug_char c = (c \<in> set ''abcdefghijklmnopqrstuvwxyz0123456789-'')"

definition slugify :: "string \<Rightarrow> string" where
  "slugify text =
     (if text = [] then []
      else let text1 = nfkd_ascii text;
               text2 = str_strip (str_lower text1);
               text3 = sub_space_runs text2
           in filter slug_char text3)"

text \<open>\<^verbatim>\<open>f"{index}"\<close> for a non-negative integer: its decimal digits.\<close>

definition digit_char :: "nat \<Rightarrow> char" where
  "digit_char d = ''0123456789'' ! d"

fun str_nat :: "nat \<Rightarrow> string" where
  "str_nat n = (if n < 10 then [digit_char n] else str_nat (n div 10) @ [digit_char (n mod 10)])"

declare str_nat.simps [simp del]

text \<open>
  \<^verbatim>\<open>int(s)\<close> for a string, as CPython 3.11 reads it: whitespace around the literal is
  skipped, a sign may lead, the digits may be grouped by single underscores, and more
  than 4300 digits are refused. Anything else raises \<^verbatim>\<open>ValueError\<close>.
\<close>

definition int_space :: "char \<Rightarrow> bool" where
  "int_space c = (c \<in> set [CHR 0x09, CHR 0x0A, CHR 0x0B, CHR 0x0C, CHR 0x0D, CHR 0x20,
     CHR 0x85, CHR 0xA0])"

definition is_digit :: "char \<Rightarrow> bool" where
  "is_digit c = (c \<in> set ''0123456789'')"

definition digit_val :: "char \<Rightarrow> nat" where
  "digit_val c = of_char c - 48"

fun parse_digits :: "nat \<Rightarrow> string \<Rightarrow> nat option" where
  "parse_digits acc [] = Some acc"
| "parse_digits acc (c # cs) =
     (if is_digit c then parse_digits (10 * acc + digit_val c) cs
      else if c = CHR ''_'' then
        (case cs of
           [] \<Rightarrow> None
         | d # ds \<Rightarrow> if is_digit d then parse_digits (10 * acc + digit_val d) ds else None)
      else None)"

definition parse_nat :: "string \<Rightarrow> nat option" where
  "parse_nat s =
     (case s of
        [] \<Rightarrow> None
      | c # cs \<Rightarrow>
          if \<not> is_digit c then None
          else if length (filter is_digit s) > 4300 then None
          else parse_digits (digit_val c) cs)"

definition py_int :: "string \<Rightarrow> exn + int" where
  "py_int s =
     (let t = rev (dropWhile int_space (rev (dropWhile int_space s)));
          r = (case t of
                 [] \<Rightarrow> None
               | c # cs \<Rightarrow>
                   if c = CHR ''-'' then map_option (\<lambda>n. - int n) (parse_nat cs)
                   else if c = CHR ''+'' then map_option int (parse_nat cs)
                   else map_option int (parse_nat t))
      in case r of None \<Rightarrow> Inl ValueError | Some i \<Rightarrow> Inr i)"

section \<open>The checkpoint\<close>

text \<open>
  \<^verbatim>\<open>CheckpointManager.data\<close>, in the shape \<^verbatim>\<open>save\<close> writes it. The checkpoint file
  is either missing or present; a present file is what \<^verbatim>\<open>open\<close> and \<^verbatim>\<open>json.load\<close>
  make of it: an exception, or the data.
\<close>

record checkpoint =
  processed_skus :: "int list"
  last_page :: int

datatype ckfile = Missing | Present "exn + checkpoint"

definition initial_checkpoint :: checkpoint where
  "initial_checkpoint = \<lparr>processed_skus = [], last_page = 1\<rparr>"

definition load :: "ckfile \<Rightarrow> checkpoint" where
  "load f =
     (case f of
        Missing \<Rightarrow> initial_checkpoint
      | Present (Inl e) \<Rightarrow> initial_checkpoint
      | Present (Inr d) \<Rightarrow> d)"

definition mark_processed :: "checkpoint \<Rightarrow> int \<Rightarrow> checkpoint" where
  "mark_processed c sku_id =
     (if sku_id \<notin> set (processed_skus c)
      then c\<lparr>processed_skus := processed_skus c @ [sku_id]\<rparr> else c)"

definition is_processed :: "checkpoint \<Rightarrow> int \<Rightarrow> bool" where
  "is_processed c sku_id = (sku_id \<in> set (processed_skus c))"

definition update_page :: "checkpoint \<Rightarrow> int \<Rightarrow> checkpoint" where
  "update_page c page = c\<lparr>last_page := page\<rparr>"

section \<open>Requests, responses and the trace of a run\<close>

text \<open>
  A request is its method, its URL and its JSON payload. The URLs are the four f-strings
  of the program, kept as their interpolated values: the listing of a page, a SKU, the
  files of a SKU, and one file of a SKU (its id is \<^verbatim>\<open>original_image_data.get('Id')\<close>).
  The keyword arguments \<^verbatim>\<open>timeout\<close> and \<^verbatim>\<open>headers\<close> are the same constants on every
  request.
\<close>

datatype meth = GET | PUT

datatype endpoint =
    SkuIds int int
  | Sku int
  | SkuFiles int
  | SkuFile int jval

datatype request = Request meth endpoint "dict option"

text \<open>
  What the program reads of a \<^verbatim>\<open>requests.Response\<close>: the status code, the value of
  \<^verbatim>\<open>headers.get('Retry-After')\<close>, \<^verbatim>\<open>text\<close> (\<open>resp_text\<close>), and the result of \<^verbatim>\<open>json()\<close>, which
  raises on a body that is not JSON. The body is typed by the endpoint that sends it:
  a list of SKU ids, a JSON object, a list of JSON objects.
\<close>

record 'b response =
  status_code :: int
  retry_after :: "string option"
  resp_text :: string
  json :: "exn + 'b"

text \<open>
  The truth value of a response object: \<^verbatim>\<open>requests.Response.__bool__\<close> returns
  \<^verbatim>\<open>self.ok\<close>, which is false for the status codes from 400 to 599.
\<close>

definition ok :: "'b response \<Rightarrow> bool" where
  "ok r = (\<not> (400 \<le> status_code r \<and> status_code r < 600))"

datatype level = INFO | WARNING | ERROR | CRITICAL

text \<open>One message for each call of \<^verbatim>\<open>log_message\<close>, with the values it interpolates.\<close>

datatype msg =
    RateLimitHit int
  | TimeoutOn request
  | ConnectionErrorMsg
  | UnexpectedError exn
  | ImageUpdated string
  | AuthError
  | UpdateError int string
  | SkipSku int
  | AlreadyCorrect string
  | GetError int int
  | AlreadyProcessed int
  | SkuInfo int jval jval
  | Ignored int
  | StartingFresh
  | Starting
  | StartingFrom int
  | FailedFetch int
  | EndOfCatalog
  | ProcessingPage int nat
  | CheckpointSaved nat
  | CookieExpired
  | ErrorOnPage int int
  | FatalError exn
  | ProcessCompleted nat

text \<open>
  The trace of a run, in the order things happen: a request sent with what came back (a
  status code, or the exception of the transport), a \<^verbatim>\<open>time.sleep\<close>, a log line, the
  checkpoint file written with the data it holds, the units of a page handed to the
  worker pool, and a unit's future completing with the result it holds.
\<close>

datatype event =
    Exchange request "exn + int"
  | Slept int
  | Logged level msg
  | Saved checkpoint
  | Dispatched int "int list"
  | Completed int "exn + bool"

record state =
  events :: "event list"
  ckpt :: checkpoint
  disk :: ckfile

text \<open>
  The world outside the program: \<^verbatim>\<open>SESSION.request\<close> at each of the four endpoints,
  after the transport's own retries, and whether a write of the checkpoint file
  succeeds. Each may depend on everything that happened before.
\<close>

record env =
  list_ids :: "event list \<Rightarrow> request \<Rightarrow> exn + int list response"
  sku_detail :: "event list \<Rightarrow> request \<Rightarrow> exn + dict response"
  sku_files :: "event list \<Rightarrow> request \<Rightarrow> exn + dict list response"
  put_file :: "event list \<Rightarrow> request \<Rightarrow> exn + unit response"
  write_ok :: "event list \<Rightarrow> bool"

definition add_event :: "event \<Rightarrow> state \<Rightarrow> state" where
  "add_event e s = s\<lparr>events := events s @ [e]\<rparr>"

text \<open>\<^verbatim>\<open>log_message\<close> prints the line and appends it to the log files; it raises nothing.\<close>

definition log_message :: "msg \<Rightarrow> level \<Rightarrow> state \<Rightarrow> state" where
  "log_message m l s = add_event (Logged l m) s"

text \<open>
  \<^verbatim>\<open>CheckpointManager.save\<close> holds \<^verbatim>\<open>log_lock\<close> while it writes. When the write
  raises, its handler calls \<^verbatim>\<open>log_message\<close>, which waits for the same lock: a
  \<^verbatim>\<open>threading.Lock\<close> is not reentrant, so the call never returns (\<open>None\<close>).
\<close>

definition save :: "env \<Rightarrow> state \<Rightarrow> state option" where
  "save env s =
     (if write_ok env (events s)
      then Some (add_event (Saved (ckpt s)) (s\<lparr>disk := Present (Inr (ckpt s))\<rparr>))
      else None)"

definition clear :: "env \<Rightarrow> state \<Rightarrow> state option" where
  "clear env s = save env (s\<lparr>ckpt := initial_checkpoint\<rparr>)"

section \<open>The request layer\<close>

text \<open>
  \<^verbatim>\<open>time.sleep(n)\<close> for an integer: a negative length raises \<^verbatim>\<open>ValueError\<close>, one too
  large for the C timestamp raises \<^verbatim>\<open>OverflowError\<close>.
\<close>

definition time_sleep :: "int \<Rightarrow> state \<Rightarrow> exn + state" where
  "time_sleep n s =
     (if n < 0 then Inl ValueError
      else if n > 9223372036 then Inl OverflowError
      else Inr (add_event (Slept n) s))"

text \<open>\<^verbatim>\<open>int(response.headers.get('Retry-After', 60))\<close>\<close>

definition retry_after_seconds :: "'b response \<Rightarrow> exn + int" where
  "retry_after_seconds r = (case retry_after r of None \<Rightarrow> Inr 60 | Some v \<Rightarrow> py_int v)"

text \<open>
  The three \<^verbatim>\<open>except\<close> clauses of \<open>safe_request\<close>: each logs its line, and
  \<open>safe_request\<close> returns \<^verbatim>\<open>None\<close> after it.
\<close>

definition handle_exn :: "request \<Rightarrow> exn \<Rightarrow> state \<Rightarrow> state" where
  "handle_exn req e s =
     (case e of
        Timeout \<Rightarrow> log_message (TimeoutOn req) ERROR s
      | ConnectionError \<Rightarrow> log_message ConnectionErrorMsg ERROR s
      | _ \<Rightarrow> log_message (UnexpectedError e) ERROR s)"

text \<open>
  \<open>safe_request\<close>. The rate gate's wait before the request reads and sets a wall clock
  that the model does not have. The recursion on a 429 is unbounded: a server that
  answers 429 for ever gives \<open>None\<close>, the call that does not return.
\<close>

partial_function (option) safe_request ::
  "(event list \<Rightarrow> request \<Rightarrow> exn + 'b response) \<Rightarrow> request \<Rightarrow> state
     \<Rightarrow> ((exn + 'b response option) \<times> state) option" where
  "safe_request session req s =
     (case session (events s) req of
        Inl e \<Rightarrow> Some (Inr None, handle_exn req e (add_event (Exchange req (Inl e)) s))
      | Inr response \<Rightarrow>
          let s1 = add_event (Exchange req (Inr (status_code response))) s in
          if status_code response = 429 then
            (case retry_after_seconds response of
               Inl e \<Rightarrow> Some (Inr None, handle_exn req e s1)
             | Inr n \<Rightarrow>
                 (case time_sleep n (log_message (RateLimitHit n) WARNING s1) of
                    Inl e \<Rightarrow>
                      Some (Inr None, handle_exn req e (log_message (RateLimitHit n) WARNING s1))
                  | Inr s2 \<Rightarrow> safe_request session req s2))
          else Some (Inr (Some response), s1))"

section \<open>Processing one SKU\<close>

text \<open>
  \<open>update_image_alt\<close>. The payload is a copy of the image record with the keys
  \<^verbatim>\<open>Label\<close> and \<^verbatim>\<open>Text\<close> assigned: an assignment replaces the value of a key that is
  there and appends a key that is not.
\<close>

definition alt_payload :: "dict \<Rightarrow> string \<Rightarrow> dict" where
  "alt_payload original_image_data new_alt_text =
     AList.update ''Text'' (JStr new_alt_text)
       (AList.update ''Label'' (JStr new_alt_text) original_image_data)"

definition update_request :: "int \<Rightarrow> dict \<Rightarrow> string \<Rightarrow> request" where
  "update_request sku_id original_image_data new_alt_text =
     Request PUT (SkuFile sku_id (dict_get original_image_data ''Id''))
       (Some (alt_payload original_image_data new_alt_text))"

definition update_image_alt ::
  "env \<Rightarrow> int \<Rightarrow> dict \<Rightarrow> string \<Rightarrow> state \<Rightarrow> ((exn + bool) \<times> state) option" where
  "update_image_alt env sku_id original_image_data new_alt_text s =
     (case safe_request (put_file env)
             (update_request sku_id original_image_data new_alt_text) s of
        None \<Rightarrow> None
      | Some (Inl e, s1) \<Rightarrow> Some (Inl e, s1)
      | Some (Inr None, s1) \<Rightarrow>
          Some (Inr False, log_message (UpdateError sku_id ''No response'') ERROR s1)
      | Some (Inr (Some response), s1) \<Rightarrow>
          if ok response \<and> status_code response = 200 then
            Some (Inr True, log_message (ImageUpdated new_alt_text) INFO s1)
          else if ok response \<and> status_code response = 401 then
            Some (Inr False, log_message AuthError CRITICAL s1)
          else
            Some (Inr False,
              log_message
                (UpdateError sku_id (if ok response then resp_text response else ''No response''))
                ERROR s1))"

text \<open>
  One operand of \<^verbatim>\<open>all(img.get('Label') and img.get('Label').strip() for img in images)\<close>:
  a label that is true and not a string has no \<^verbatim>\<open>strip\<close>. \<^verbatim>\<open>all\<close> stops at the first
  operand that is false.
\<close>

definition has_alt :: "dict \<Rightarrow> exn + bool" where
  "has_alt img =
     (let l = dict_get img ''Label'' in
      if \<not> truthy l then Inr False
      else case l of
             JStr t \<Rightarrow> Inr (str_strip t \<noteq> [])
           | _ \<Rightarrow> Inl AttributeError)"

fun all_have_alt :: "dict list \<Rightarrow> exn + bool" where
  "all_have_alt [] = Inr True"
| "all_have_alt (img # images) =
     (case has_alt img of
        Inl e \<Rightarrow> Inl e
      | Inr b \<Rightarrow> if b then all_have_alt images else Inr False)"

text \<open>\<^verbatim>\<open>f"{base_name}_{index}"\<close>\<close>

definition new_alt :: "string \<Rightarrow> nat \<Rightarrow> string" where
  "new_alt base_name index = base_name @ ''_'' @ str_nat index"

text \<open>
  The loop \<^verbatim>\<open>for index, img in enumerate(images, start=1)\<close> of \<open>process_sku_images\<close>,
  from position \<open>index\<close> on, with the value of \<^verbatim>\<open>success\<close> so far.
\<close>

fun update_images ::
  "env \<Rightarrow> int \<Rightarrow> string \<Rightarrow> nat \<Rightarrow> dict list \<Rightarrow> bool \<Rightarrow> state
     \<Rightarrow> ((exn + bool) \<times> state) option" where
  "update_images env sku_id base_name index [] success s = Some (Inr success, s)"
| "update_images env sku_id base_name index (img # images) success s =
     (let current_label = dict_get_default img ''Label'' (JStr []);
          alt = new_alt base_name index
      in if current_label \<noteq> JStr alt then
           (case update_image_alt env sku_id img alt s of
              None \<Rightarrow> None
            | Some (Inl e, s1) \<Rightarrow> Some (Inl e, s1)
            | Some (Inr updated, s1) \<Rightarrow>
                update_images env sku_id base_name (Suc index) images
                  (if \<not> updated then False else success) s1)
         else
           update_images env sku_id base_name (Suc index) images success
             (log_message (AlreadyCorrect alt) INFO s))"

text \<open>
  \<open>slugify\<close> applied to the name of the SKU, which is any JSON value that is true:
  \<^verbatim>\<open>unicodedata.normalize\<close> refuses what is not a string.
\<close>

definition slugify_value :: "jval \<Rightarrow> exn + string" where
  "slugify_value v =
     (if \<not> truthy v then Inr []
      else case v of JStr t \<Rightarrow> Inr (slugify t) | _ \<Rightarrow> Inl TypeError)"

definition process_sku_images ::
  "env \<Rightarrow> int \<Rightarrow> jval \<Rightarrow> state \<Rightarrow> ((exn + bool) \<times> state) option" where
  "process_sku_images env sku_id product_name s =
     (case safe_request (sku_files env) (Request GET (SkuFiles sku_id) None) s of
        None \<Rightarrow> None
      | Some (Inl e, s1) \<Rightarrow> Some (Inl e, s1)
      | Some (Inr None, s1) \<Rightarrow> Some (Inr False, s1)
      | Some (Inr (Some response), s1) \<Rightarrow>
          if \<not> ok response then Some (Inr False, s1)
          else if status_code response = 200 then
            (case json response of
               Inl e \<Rightarrow> Some (Inl e, s1)
             | Inr images \<Rightarrow>
                 if images = [] then Some (Inr True, s1)
                 else
                   (case all_have_alt images of
                      Inl e \<Rightarrow> Some (Inl e, s1)
                    | Inr all_alt \<Rightarrow>
                        if all_alt then Some (Inr True, log_message (SkipSku sku_id) INFO s1)
                        else
                          (case slugify_value product_name of
                             Inl e \<Rightarrow> Some (Inl e, s1)
                           | Inr base_name \<Rightarrow>
                               update_images env sku_id base_name 1 images True s1)))
          else if status_code response = 404 then Some (Inr True, s1)
          else Some (Inr False, log_message (GetError sku_id (status_code response)) ERROR s1))"

definition get_sku_details ::
  "env \<Rightarrow> int \<Rightarrow> state \<Rightarrow> ((exn + jval \<times> jval) \<times> state) option" where
  "get_sku_details env sku_id s =
     (case safe_request (sku_detail env) (Request GET (Sku sku_id) None) s of
        None \<Rightarrow> None
      | Some (Inl e, s1) \<Rightarrow> Some (Inl e, s1)
      | Some (Inr None, s1) \<Rightarrow> Some (Inr (JNull, JNull), s1)
      | Some (Inr (Some response), s1) \<Rightarrow>
          if ok response \<and> status_code response = 200 then
            (case json response of
               Inl e \<Rightarrow> Some (Inl e, s1)
             | Inr data \<Rightarrow>
                 Some (Inr (py_or (py_or (dict_get data ''ProductName'')
                                         (dict_get data ''NameComplete''))
                                  (dict_get data ''Name''),
                            dict_get data ''RefId''), s1))
          else Some (Inr (JNull, JNull), s1))"

definition process_single_sku ::
  "env \<Rightarrow> int \<Rightarrow> state \<Rightarrow> ((exn + bool) \<times> state) option" where
  "process_single_sku env sku_id s =
     (if is_processed (ckpt s) sku_id then
        Some (Inr True, log_message (AlreadyProcessed sku_id) INFO s)
      else
        (case get_sku_details env sku_id s of
           None \<Rightarrow> None
         | Some (Inl e, s1) \<Rightarrow> Some (Inl e, s1)
         | Some (Inr (product_name, ref_id), s1) \<Rightarrow>
             if truthy product_name then
               (case process_sku_images env sku_id product_name
                       (log_message (SkuInfo sku_id ref_id product_name) INFO s1) of
                  None \<Rightarrow> None
                | Some (Inl e, s2) \<Rightarrow> Some (Inl e, s2)
                | Some (Inr success, s2) \<Rightarrow>
                    Some (Inr success,
                      if success then s2\<lparr>ckpt := mark_processed (ckpt s2) sku_id\<rparr> else s2))
             else Some (Inr True, log_message (Ignored sku_id) WARNING s1)))"

section \<open>The runner\<close>

text \<open>
  The worker pool of one page. The units run one after the other, in the order of the
  page, and \<^verbatim>\<open>as_completed\<close> yields each future as it completes: this is the schedule
  of a pool whose workers never overlap. A future holds the result of
  \<open>process_single_sku\<close> or the exception it raised; the runner reads neither. A unit
  that never returns keeps the pool, and the run, waiting.
\<close>

definition CHECKPOINT_INTERVAL :: nat where
  "CHECKPOINT_INTERVAL = 10"

fun run_page :: "env \<Rightarrow> int list \<Rightarrow> nat \<Rightarrow> state \<Rightarrow> (nat \<times> state) option" where
  "run_page env [] processed_count s = Some (processed_count, s)"
| "run_page env (sku_id # sku_ids) processed_count s =
     (case process_single_sku env sku_id s of
        None \<Rightarrow> None
      | Some (result, s1) \<Rightarrow>
          let s2 = add_event (Completed sku_id result) s1;
              processed_count1 = processed_count + 1
          in if processed_count1 mod CHECKPOINT_INTERVAL = 0 then
               (case save env s2 of
                  None \<Rightarrow> None
                | Some s3 \<Rightarrow>
                    run_page env sku_ids processed_count1
                      (log_message (CheckpointSaved processed_count1) INFO s3))
             else run_page env sku_ids processed_count1 s2)"

text \<open>\<^verbatim>\<open>except Exception as e\<close> of the runner: log, save the checkpoint, end the loop.\<close>

definition fatal :: "env \<Rightarrow> exn \<Rightarrow> nat \<Rightarrow> state \<Rightarrow> (nat \<times> state) option" where
  "fatal env e processed_count s =
     (case save env (log_message (FatalError e) CRITICAL s) of
        None \<Rightarrow> None
      | Some s1 \<Rightarrow> Some (processed_count, s1))"

text \<open>
  One turn of the \<^verbatim>\<open>while True\<close> loop of \<open>run_bulk_update\<close>, at page \<open>page\<close>: it
  either leaves the loop (\<^verbatim>\<open>break\<close>, or the exception handler) or goes on to the next
  page, in both cases with the number of completed units and the state.
\<close>

datatype 'a turn = Break 'a | Continue 'a

definition page_iteration ::
  "env \<Rightarrow> int \<Rightarrow> nat \<Rightarrow> state \<Rightarrow> (nat \<times> state) turn option" where
  "page_iteration env page processed_count s =
     (case safe_request (list_ids env) (Request GET (SkuIds page 50) None) s of
        None \<Rightarrow> None
      | Some (Inl e, s1) \<Rightarrow> map_option Break (fatal env e processed_count s1)
      | Some (Inr None, s1) \<Rightarrow>
          Some (Break (processed_count, log_message (FailedFetch page) ERROR s1))
      | Some (Inr (Some response), s1) \<Rightarrow>
          if \<not> ok response then
            Some (Break (processed_count, log_message (FailedFetch page) ERROR s1))
          else if status_code response = 200 then
            (case json response of
               Inl e \<Rightarrow> map_option Break (fatal env e processed_count s1)
             | Inr sku_ids \<Rightarrow>
                 if sku_ids = [] then
                   Some (Break (processed_count, log_message EndOfCatalog INFO s1))
                 else
                   (case run_page env sku_ids processed_count
                           (add_event (Dispatched page sku_ids)
                              (log_message (ProcessingPage page (length sku_ids)) INFO s1)) of
                      None \<Rightarrow> None
                    | Some (processed_count1, s2) \<Rightarrow>
                        map_option (\<lambda>s3. Continue (processed_count1, s3))
                          (save env (s2\<lparr>ckpt := update_page (ckpt s2) (page + 1)\<rparr>))))
          else if status_code response = 401 then
            Some (Break (processed_count, log_message CookieExpired CRITICAL s1))
          else
            Some (Break (processed_count,
              log_message (ErrorOnPage page (status_code response)) ERROR s1)))"

text \<open>
  The loop from page \<open>page\<close> on. It ends with the number of completed units and the
  state; a catalog without end gives \<open>None\<close>.
\<close>

partial_function (option) page_loop ::
  "env \<Rightarrow> int \<Rightarrow> nat \<Rightarrow> state \<Rightarrow> (nat \<times> state) option" where
  "page_loop env page processed_count s =
     (case page_iteration env page processed_count s of
        None \<Rightarrow> None
      | Some (Break result) \<Rightarrow> Some result
      | Some (Continue (processed_count1, s3)) \<Rightarrow>
          page_loop env (page + 1) processed_count1 s3)"

text \<open>
  \<open>run_bulk_update\<close>: the checkpoint is loaded from the file (and cleared when the run
  does not resume), the loop starts at its \<open>last_page\<close>.
\<close>

definition run_bulk_update :: "env \<Rightarrow> bool \<Rightarrow> state \<Rightarrow> state option" where
  "run_bulk_update env resume s =
     (let s1 = s\<lparr>ckpt := load (disk s)\<rparr> in
      case (if \<not> resume
            then map_option (log_message StartingFresh INFO) (clear env s1)
            else Some s1) of
        None \<Rightarrow> None
      | Some s2 \<Rightarrow>
          (let start_page = last_page (ckpt s2);
               s3 = log_message (StartingFrom start_page) INFO (log_message Starting INFO s2)
           in (case page_loop env start_page 0 s3 of
                 None \<Rightarrow> None
               | Some (processed_count, s4) \<Rightarrow>
                   Some (log_message (ProcessCompleted processed_count) INFO s4))))"

declare safe_request.simps [code]
declare page_loop.simps [code]

section \<open>Reading the trace\<close>

text \<open>
  The events a call of \<open>safe_request\<close> can leave in the trace: exchanges of its own
  request, sleeps, and the log lines of \<open>safe_request\<close>. \<open>extends P s s'\<close>: the state
  \<open>s'\<close> is \<open>s\<close> with more events, all of them in \<open>P\<close>, and the same checkpoint in
  memory and in the file.
\<close>

definition request_msg :: "msg \<Rightarrow> bool" where
  "request_msg m =
     (case m of
        RateLimitHit n \<Rightarrow> True
      | TimeoutOn q \<Rightarrow> True
      | ConnectionErrorMsg \<Rightarrow> True
      | UnexpectedError e \<Rightarrow> True
      | _ \<Rightarrow> False)"

text \<open>The log lines of the functions that a worker runs.\<close>

definition worker_msg :: "msg \<Rightarrow> bool" where
  "worker_msg m =
     (case m of
        RateLimitHit n \<Rightarrow> True
      | TimeoutOn q \<Rightarrow> True
      | ConnectionErrorMsg \<Rightarrow> True
      | UnexpectedError e \<Rightarrow> True
      | ImageUpdated t \<Rightarrow> True
      | AuthError \<Rightarrow> True
      | UpdateError sku_id t \<Rightarrow> True
      | SkipSku sku_id \<Rightarrow> True
      | AlreadyCorrect t \<Rightarrow> True
      | GetError sku_id c \<Rightarrow> True
      | AlreadyProcessed sku_id \<Rightarrow> True
      | SkuInfo sku_id ref_id product_name \<Rightarrow> True
      | Ignored sku_id \<Rightarrow> True
      | _ \<Rightarrow> False)"

definition request_event :: "request \<Rightarrow> event \<Rightarrow> bool" where
  "request_event req e =
     (case e of
        Exchange q out \<Rightarrow> q = req
      | Slept n \<Rightarrow> True
      | Logged l m \<Rightarrow> request_msg m
      | _ \<Rightarrow> False)"

text \<open>
  The events in which every exchange is answered, with the status 429 or with \<open>c\<close>.
\<close>

definition exchange_status :: "int \<Rightarrow> event \<Rightarrow> bool" where
  "exchange_status c e =
     (case e of
        Exchange q (Inr d) \<Rightarrow> d = 429 \<or> d = c
      | Exchange q (Inl x) \<Rightarrow> False
      | _ \<Rightarrow> True)"

text \<open>The events that are no exchange of another request than \<open>req\<close>.\<close>

definition only_request :: "request \<Rightarrow> event \<Rightarrow> bool" where
  "only_request req e = (case e of Exchange q out \<Rightarrow> q = req | _ \<Rightarrow> True)"

text \<open>The log lines of an update that did not succeed.\<close>

definition update_failed :: "event \<Rightarrow> bool" where
  "update_failed e =
     (case e of
        Logged l (UpdateError sku_id t) \<Rightarrow> True
      | Logged l AuthError \<Rightarrow> True
      | _ \<Rightarrow> False)"

text \<open>
  The events the loop over the images of a SKU may leave, for the slug \<open>x\<close> and the
  images \<open>imgs\<close> numbered from \<open>k\<close>: an exchange is the update of the image at some
  position \<open>i\<close> to the label \<open>x_i\<close>, and that image does not carry this label yet.
\<close>

definition update_event :: "int \<Rightarrow> string \<Rightarrow> nat \<Rightarrow> dict list \<Rightarrow> event \<Rightarrow> bool" where
  "update_event sku_id x k imgs e =
     (case e of
        Exchange q out \<Rightarrow>
          list_ex (\<lambda>(i, img).
              q = Request PUT (SkuFile sku_id (dict_get img ''Id''))
                    (Some (alt_payload img (x @ ''_'' @ str_nat i)))
              \<and> dict_get_default img ''Label'' (JStr []) \<noteq> JStr (x @ ''_'' @ str_nat i))
            (enumerate k imgs)
      | Slept n \<Rightarrow> True
      | Logged l m \<Rightarrow> worker_msg m
      | _ \<Rightarrow> False)"

text \<open>An exchange whose payload carries the label \<open>t\<close>.\<close>

definition submits_label :: "string \<Rightarrow> event \<Rightarrow> bool" where
  "submits_label t e =
     (case e of
        Exchange (Request m u (Some d)) out \<Rightarrow> map_of d ''Label'' = Some (JStr t)
      | _ \<Rightarrow> False)"

text \<open>The events of a worker: exchanges, sleeps and its log lines.\<close>

definition unit_event :: "event \<Rightarrow> bool" where
  "unit_event e =
     (case e of
        Exchange q out \<Rightarrow> True
      | Slept n \<Rightarrow> True
      | Logged l m \<Rightarrow> worker_msg m
      | _ \<Rightarrow> False)"

definition extends :: "(event \<Rightarrow> bool) \<Rightarrow> state \<Rightarrow> state \<Rightarrow> bool" where
  "extends P s s' =
     (ckpt s' = ckpt s \<and> disk s' = disk s \<and>
      (\<exists>evs. events s' = events s @ evs \<and> list_all P evs))"

text \<open>
  \<open>grows P s s'\<close>: the trace of \<open>s'\<close> is the trace of \<open>s\<close> with more events, all of them
  in \<open>P\<close>.
\<close>

definition grows :: "(event \<Rightarrow> bool) \<Rightarrow> state \<Rightarrow> state \<Rightarrow> bool" where
  "grows P s s' = (\<exists>evs. events s' = events s @ evs \<and> list_all P evs)"

text \<open>
  The order of the saves of a run, read off its trace. The reader keeps the page the
  checkpoint in memory stands at, and the units of that page that were handed to the
  pool and have not completed (\<open>None\<close> before the page is dispatched). A page is
  dispatched once, at the page the checkpoint stands at; its units complete in any
  order; a save either holds the page the checkpoint stands at, or it holds the next page, and
  then the page was dispatched and none of its units is left. The line
  \<^verbatim>\<open>Checkpoint saved (n SKUs processed)\<close>, which follows a periodic save, is written
  while a page is dispatched: the save before it has not advanced the page.
  \<open>page_order\<close> is \<open>None\<close> on a trace that breaks this order.
\<close>

type_synonym progress = "int \<times> int list option"

fun page_order_step :: "progress \<Rightarrow> event \<Rightarrow> progress option" where
  "page_order_step (p, pending) (Dispatched q ids) =
     (if q = p \<and> pending = None then Some (p, Some ids) else None)"
| "page_order_step (p, pending) (Completed sku_id r) =
     (case pending of
        None \<Rightarrow> None
      | Some xs \<Rightarrow> if sku_id \<in> set xs then Some (p, Some (remove1 sku_id xs)) else None)"
| "page_order_step (p, pending) (Saved c) =
     (if last_page c = p then Some (p, pending)
      else if last_page c = p + 1 \<and> pending = Some [] then Some (p + 1, None)
      else None)"
| "page_order_step (p, pending) (Exchange q out) = Some (p, pending)"
| "page_order_step (p, pending) (Slept n) = Some (p, pending)"
| "page_order_step (p, pending) (Logged l m) =
     (case m of
        CheckpointSaved n \<Rightarrow> if pending = None then None else Some (p, pending)
      | _ \<Rightarrow> Some (p, pending))"

fun page_order :: "progress \<Rightarrow> event list \<Rightarrow> progress option" where
  "page_order st [] = Some st"
| "page_order st (e # es) =
     (case page_order_step st e of None \<Rightarrow> None | Some st1 \<Rightarrow> page_order st1 es)"

text \<open>
  An exchange answered 401, a page handed to the pool, and the traces in which no page
  is handed to the pool after an exchange answered 401.
\<close>

definition is_unauthorized :: "event \<Rightarrow> bool" where
  "is_unauthorized e = (case e of Exchange q (Inr c) \<Rightarrow> c = 401 | _ \<Rightarrow> False)"

definition is_dispatch :: "event \<Rightarrow> bool" where
  "is_dispatch e = (case e of Dispatched p ids \<Rightarrow> True | _ \<Rightarrow> False)"

fun no_dispatch_after_401 :: "event list \<Rightarrow> bool" where
  "no_dispatch_after_401 [] = True"
| "no_dispatch_after_401 (e # es) =
     (if is_unauthorized e then \<not> list_ex is_dispatch es else no_dispatch_after_401 es)"

text \<open>
  A session that stays unauthorized: once an exchange was answered 401, every listing
  request is answered 401.
\<close>

definition stays_unauthorized :: "env \<Rightarrow> bool" where
  "stays_unauthorized env =
     (\<forall>h page. list_ex is_unauthorized h \<longrightarrow>
        (case list_ids env h (Request GET (SkuIds page 50) None) of
           Inl e \<Rightarrow> False
         | Inr response \<Rightarrow> status_code response = 401))"

section \<open>Concrete catalogs\<close>

text \<open>Small worlds on which the theorems below are run.\<close>

definition demo_response :: "int \<Rightarrow> exn + 'b \<Rightarrow> 'b response" where
  "demo_response c j = \<lparr>status_code = c, retry_after = None, resp_text = [], json = j\<rparr>"

definition demo_state :: state where
  "demo_state = \<lparr>events = [], ckpt = initial_checkpoint, disk = Missing\<rparr>"

definition demo_images :: "dict list" where
  "demo_images =
     [[(''Id'', JInt 11), (''Label'', JNull), (''Name'', JStr ''front'')],
      [(''Id'', JInt 12), (''Label'', JStr ''dipirona-1g_2''), (''Name'', JStr ''back'')]]"

text \<open>
  A catalog of two pages, with SKU 7 on the first and SKU 8 on the second; every SKU
  has the same name and the same two images, and every update is answered with the
  status \<open>put_status\<close>.
\<close>

definition demo_env :: "int \<Rightarrow> env" where
  "demo_env put_status =
     \<lparr>list_ids = (\<lambda>h q. Inr (demo_response 200
          (Inr (if q = Request GET (SkuIds 1 50) None then [7]
                else if q = Request GET (SkuIds 2 50) None then [8] else [])))),
      sku_detail = (\<lambda>h q. Inr (demo_response 200
          (Inr [(''ProductName'', JStr ''Dipirona 1g''), (''RefId'', JStr ''R7'')]))),
      sku_files = (\<lambda>h q. Inr (demo_response 200 (Inr demo_images))),
      put_file = (\<lambda>h q. Inr (demo_response put_status (Inl JSONDecodeError))),
      write_ok = (\<lambda>h. True)\<rparr>"

text \<open>The same catalog behind a session that stays unauthorized after the first 401.\<close>

definition expired_env :: env where
  "expired_env =
     (demo_env 401)\<lparr>list_ids := (\<lambda>h q.
        if list_ex is_unauthorized h then Inr (demo_response 401 (Inl JSONDecodeError))
        else list_ids (demo_env 401) h q)\<rparr>"

text \<open>
  A catalog of one page of ten SKUs, and a checkpoint file of an earlier run that has
  processed them all but did not save the page.
\<close>

definition ten_env :: env where
  "ten_env =
     (demo_env 200)\<lparr>list_ids := (\<lambda>h q. Inr (demo_response 200
        (Inr (if q = Request GET (SkuIds 1 50) None then [1, 2, 3, 4, 5, 6, 7, 8, 9, 10]
              else []))))\<rparr>"

definition ten_state :: state where
  "ten_state =
     \<lparr>events = [], ckpt = initial_checkpoint,
      disk = Present (Inr \<lparr>processed_skus = [1, 2, 3, 4, 5, 6, 7, 8, 9, 10], last_page = 1\<rparr>)\<rparr>"

text \<open>The trace of the run of \<open>demo_env 401\<close> from \<open>demo_state\<close>.\<close>

definition continuing_trace :: "event list" where
  "continuing_trace =
    [Logged INFO Starting,
     Logged INFO (StartingFrom 1),
     Exchange (Request GET (SkuIds 1 50) None) (Inr 200),
     Logged INFO (ProcessingPage 1 1),
     Dispatched 1 [7],
     Exchange (Request GET (Sku 7) None) (Inr 200),
     Logged INFO (SkuInfo 7 (JStr ''R7'') (JStr ''Dipirona 1g'')),
     Exchange (Request GET (SkuFiles 7) None) (Inr 200),
     Exchange (Request PUT (SkuFile 7 (JInt 11))
         (Some [(''Id'', JInt 11), (''Label'', JStr ''dipirona-1g_1''),
                (''Name'', JStr ''front''), (''Text'', JStr ''dipirona-1g_1'')]))
        (Inr 401),
     Logged ERROR (UpdateError 7 ''No response''),
     Logged INFO (AlreadyCorrect ''dipirona-1g_2''),
     Completed 7 (Inr False),
     Saved \<lparr>processed_skus = [], last_page = 2\<rparr>,
     Exchange (Request GET (SkuIds 2 50) None) (Inr 200),
     Logged INFO (ProcessingPage 2 1),
     Dispatched 2 [8],
     Exchange (Request GET (Sku 8) None) (Inr 200),
     Logged INFO (SkuInfo 8 (JStr ''R7'') (JStr ''Dipirona 1g'')),
     Exchange (Request GET (SkuFiles 8) None) (Inr 200),
     Exchange (Request PUT (SkuFile 8 (JInt 11))
         (Some [(''Id'', JInt 11), (''Label'', JStr ''dipirona-1g_1''),
                (''Name'', JStr ''front''), (''Text'', JStr ''dipirona-1g_1'')]))
        (Inr 401),
     Logged ERROR (UpdateError 8 ''No response''),
     Logged INFO (AlreadyCorrect ''dipirona-1g_2''),
     Completed 8 (Inr False),
     Saved \<lparr>processed_skus = [], last_page = 3\<rparr>,
     Exchange (Request GET (SkuIds 3 50) None) (Inr 200),
     Logged INFO EndOfCatalog,
     Logged INFO (ProcessCompleted 2)]"

text \<open>The trace of the run of \<open>expired_env\<close> from \<open>demo_state\<close>.\<close>

definition expired_trace :: "event list" where
  "expired_trace =
    [Logged INFO Starting,
     Logged INFO (StartingFrom 1),
     Exchange (Request GET (SkuIds 1 50) None) (Inr 200),
     Logged INFO (ProcessingPage 1 1),
     Dispatched 1 [7],
     Exchange (Request GET (Sku 7) None) (Inr 200),
     Logged INFO (SkuInfo 7 (JStr ''R7'') (JStr ''Dipirona 1g'')),
     Exchange (Request GET (SkuFiles 7) None) (Inr 200),
     Exchange (Request PUT (SkuFile 7 (JInt 11))
         (Some [(''Id'', JInt 11), (''Label'', JStr ''dipirona-1g_1''),
                (''Name'', JStr ''front''), (''Text'', JStr ''dipirona-1g_1'')]))
        (Inr 401),
     Logged ERROR (UpdateError 7 ''No response''),
     Logged INFO (AlreadyCorrect ''dipirona-1g_2''),
     Completed 7 (Inr False),
     Saved \<lparr>processed_skus = [], last_page = 2\<rparr>,
     Exchange (Request GET (SkuIds 2 50) None) (Inr 401),
     Logged ERROR (FailedFetch 2),
     Logged INFO (ProcessCompleted 1)]"

text \<open>The trace of the run of \<open>ten_env\<close> from \<open>ten_state\<close>.\<close>

definition ten_trace :: "event list" where
  "ten_trace =
    [Logged INFO Starting,
     Logged INFO (StartingFrom 1),
     Exchange (Request GET (SkuIds 1 50) None) (Inr 200),
     Logged INFO (ProcessingPage 1 10),
     Dispatched 1 [1, 2, 3, 4, 5, 6, 7, 8, 9, 10],
     Logged INFO (AlreadyProcessed 1),
     Completed 1 (Inr True),
     Logged INFO (AlreadyProcessed 2),
     Completed 2 (Inr True),
     Logged INFO (AlreadyProcessed 3),
     Completed 3 (Inr True),
     Logged INFO (AlreadyProcessed 4),
     Completed 4 (Inr True),
     Logged INFO (AlreadyProcessed 5),
     Completed 5 (Inr True),
     Logged INFO (AlreadyProcessed 6),
     Completed 6 (Inr True),
     Logged INFO (AlreadyProcessed 7),
     Completed 7 (Inr True),
     Logged INFO (AlreadyProcessed 8),
     Completed 8 (Inr True),
     Logged INFO (AlreadyProcessed 9),
     Completed 9 (Inr True),
     Logged INFO (AlreadyProcessed 10),
     Completed 10 (Inr True),
     Saved \<lparr>processed_skus = [1, 2, 3, 4, 5, 6, 7, 8, 9, 10], last_page = 1\<rparr>,
     Logged INFO (CheckpointSaved 10),
     Saved \<lparr>processed_skus = [1, 2, 3, 4, 5, 6, 7, 8, 9, 10], last_page = 2\<rparr>,
     Exchange (Request GET (SkuIds 2 50) None) (Inr 200),
     Logged INFO EndOfCatalog,
     Logged INFO (ProcessCompleted 10)]"

text \<open>A server that answers 429 without a \<^verbatim>\<open>Retry-After\<close> header until 60 seconds were slept.\<close>

definition busy_once :: "event list \<Rightarrow> request \<Rightarrow> exn + unit response" where
  "busy_once h q =
     (if Slept 60 \<in> set h then Inr (demo_response 200 (Inr ()))
      else Inr (demo_response 429 (Inr ())))"


section \<open>Properties of slugify\<close>




















section \<open>The checkpoint file\<close>

text \<open>
  C9. \<open>load\<close> never fails the caller: a missing checkpoint file, and a file that is
  there but cannot be opened or parsed, both give the empty initial state
  \<^verbatim>\<open>{"processed_skus": [], "last_page": 1}\<close>.
\<close>

theorem load_never_fails:
  "load Missing = \<lparr>processed_skus = [], last_page = 1\<rparr> \<and>
   load (Present (Inl e)) = \<lparr>processed_skus = [], last_page = 1\<rparr>"
  by (simp add: load_def initial_checkpoint_def)

section \<open>The request layer\<close>

lemma extends_refl: "extends P s s"
  by (simp add: extends_def)

lemma extends_trans: "extends P s s1 \<Longrightarrow> extends P s1 s2 \<Longrightarrow> extends P s s2"
  by (auto simp: extends_def)

lemma extends_add_event: "P e \<Longrightarrow> extends P s (add_event e s)"
  by (simp add: extends_def add_event_def)

lemma extends_log: "P (Logged l m) \<Longrightarrow> extends P s (log_message m l s)"
  by (simp add: log_message_def extends_add_event)

lemma extends_mono: "extends P s s' \<Longrightarrow> (\<And>e. P e \<Longrightarrow> Q e) \<Longrightarrow> extends Q s s'"
  by (auto simp: extends_def list_all_iff)

lemma handle_exn_frame:
  assumes "extends (request_event req) s s0"
  shows "extends (request_event req) s (handle_exn req e s0)"
proof -
  have "extends (request_event req) s0 (log_message m ERROR s0)" if "request_msg m" for m
    by (rule extends_log) (simp add: request_event_def that)
  with assms have "extends (request_event req) s (log_message m ERROR s0)"
    if "request_msg m" for m
    using that by (blast intro: extends_trans)
  then show ?thesis
    by (cases e) (simp_all add: handle_exn_def request_msg_def)
qed

lemma time_sleep_frame: "time_sleep n s = Inr s' \<Longrightarrow> extends (request_event req) s s'"
  by (auto simp: time_sleep_def request_event_def split: if_splits intro!: extends_add_event)

lemma request_event_only: "request_event req e \<Longrightarrow> only_request req e"
  by (cases e) (simp_all add: request_event_def only_request_def)

lemma request_msg_worker: "request_msg m \<Longrightarrow> worker_msg m"
  by (cases m) (simp_all add: request_msg_def worker_msg_def)

lemma request_event_unit: "request_event req e \<Longrightarrow> unit_event e"
  by (cases e) (simp_all add: request_event_def unit_event_def request_msg_worker)

lemma request_event_quiet: "request_event req e \<Longrightarrow> \<not> update_failed e"
  by (cases e) (auto simp: request_event_def update_failed_def request_msg_def split: msg.splits)

text \<open>
  Whatever \<open>safe_request\<close> returns, it has only added exchanges of its own request,
  sleeps and log lines to the trace, and the result is \<^verbatim>\<open>None\<close> or a response that
  is not a 429.
\<close>

lemma safe_request_frame:
  assumes "safe_request session req s = Some y"
  shows "extends (request_event req) s (snd y) \<and>
     (fst y = Inr None \<or>
      (\<exists>response. fst y = Inr (Some response) \<and> status_code response \<noteq> 429))"
proof (rule safe_request.raw_induct[where P = "\<lambda>session req s y.
     extends (request_event req) s (snd y) \<and>
     (fst y = Inr None \<or>
      (\<exists>response. fst y = Inr (Some response) \<and> status_code response \<noteq> 429))",
     OF _ assms], goal_cases)
  case (1 f session req s y)
  show ?case
  proof (cases "session (events s) req")
    case (Inl e)
    with 1(2) have y: "y = (Inr None, handle_exn req e (add_event (Exchange req (Inl e)) s))"
      by simp
    have "extends (request_event req) s (add_event (Exchange req (Inl e)) s)"
      by (rule extends_add_event) (simp add: request_event_def)
    from handle_exn_frame[OF this, of e] y show ?thesis by simp
  next
    case (Inr response)
    note answered = this
    define s1 where "s1 = add_event (Exchange req (Inr (status_code response))) s"
    have e1: "extends (request_event req) s s1"
      unfolding s1_def by (rule extends_add_event) (simp add: request_event_def)
    show ?thesis
    proof (cases "status_code response = 429")
      case False
      with 1(2) answered have "y = (Inr (Some response), s1)" by (simp add: s1_def)
      with e1 False show ?thesis by simp
    next
      case True
      note is429 = this
      show ?thesis
      proof (cases "retry_after_seconds response")
        case (Inl e)
        with 1(2) answered is429 have "y = (Inr None, handle_exn req e s1)"
          by (simp add: s1_def)
        with handle_exn_frame[OF e1, of e] show ?thesis by simp
      next
        case (Inr n)
        note seconds = this
        define s1' where "s1' = log_message (RateLimitHit n) WARNING s1"
        have e2: "extends (request_event req) s s1'"
          unfolding s1'_def using e1
          by (rule extends_trans) (rule extends_log, simp add: request_event_def request_msg_def)
        show ?thesis
        proof (cases "time_sleep n s1'")
          case (Inl e)
          with 1(2) answered is429 seconds
          have "y = (Inr None, handle_exn req e s1')" by (simp add: s1_def s1'_def)
          with handle_exn_frame[OF e2, of e] show ?thesis by simp
        next
          case (Inr s2)
          with 1(2) answered is429 seconds
          have "f session req s2 = Some y" by (simp add: s1_def s1'_def)
          from 1(1)[OF this] extends_trans[OF e2 time_sleep_frame[OF Inr, of req]]
          show ?thesis by (blast intro: extends_trans)
        qed
      qed
    qed
  qed
qed

lemma safe_request_raises:
  "session (events s) req = Inl e \<Longrightarrow>
     safe_request session req s =
       Some (Inr None, handle_exn req e (add_event (Exchange req (Inl e)) s))"
  by (subst safe_request.simps) simp

lemma safe_request_answered:
  "session (events s) req = Inr response \<Longrightarrow> status_code response \<noteq> 429 \<Longrightarrow>
     safe_request session req s =
       Some (Inr (Some response), add_event (Exchange req (Inr (status_code response))) s)"
  by (subst safe_request.simps) simp

text \<open>
  C4. \<open>safe_request\<close> never raises. Whenever it returns, the result is a response object
  or \<^verbatim>\<open>None\<close>, never an exception. When the transport raises (a timeout, a connection
  error, anything else) it returns \<^verbatim>\<open>None\<close> at once, and when the transport answers
  with a status other than 429 it returns that response. (Only a server that answers 429
  again and again keeps it from returning.)
\<close>

theorem safe_request_never_raises:
  "(safe_request session req s = Some (r, s') \<longrightarrow>
      r = Inr None \<or> (\<exists>response. r = Inr (Some response)))
   \<and> (session (events s) req = Inl e \<longrightarrow>
      (\<exists>s1. safe_request session req s = Some (Inr None, s1)))
   \<and> (session (events s) req = Inr response \<and> status_code response \<noteq> 429 \<longrightarrow>
      (\<exists>s1. safe_request session req s = Some (Inr (Some response), s1)))"
proof (intro conjI impI)
  assume "safe_request session req s = Some (r, s')"
  from safe_request_frame[OF this]
  show "r = Inr None \<or> (\<exists>response. r = Inr (Some response))" by auto
next
  assume "session (events s) req = Inl e"
  then show "\<exists>s1. safe_request session req s = Some (Inr None, s1)"
    by (simp add: safe_request_raises)
next
  assume "session (events s) req = Inr response \<and> status_code response \<noteq> 429"
  then show "\<exists>s1. safe_request session req s = Some (Inr (Some response), s1)"
    by (simp add: safe_request_answered)
qed

theorem safe_request_never_raises_witness:
  "safe_request (\<lambda>h q. Inl Timeout :: exn + unit response) (Request GET (Sku 42) None)
      demo_state
     = Some (Inr None,
         demo_state\<lparr>events := [Exchange (Request GET (Sku 42) None) (Inl Timeout),
                                Logged ERROR (TimeoutOn (Request GET (Sku 42) None))]\<rparr>)
   \<and> safe_request (\<lambda>h q. Inr (demo_response 404 (Inr ()))) (Request GET (Sku 42) None)
      demo_state
     = Some (Inr (Some (demo_response 404 (Inr ()))),
         demo_state\<lparr>events := [Exchange (Request GET (Sku 42) None) (Inr 404)]\<rparr>)
   \<and> safe_request busy_once (Request GET (Sku 42) None) demo_state
     = Some (Inr (Some (demo_response 200 (Inr ()))),
         demo_state\<lparr>events := [Exchange (Request GET (Sku 42) None) (Inr 429),
                                Logged WARNING (RateLimitHit 60), Slept 60,
                                Exchange (Request GET (Sku 42) None) (Inr 200)]\<rparr>)"
proof -
  have c: "safe_request busy_once (Request GET (Sku 42) None) demo_state
     = Some (Inr (Some (demo_response 200 (Inr ()))),
         demo_state\<lparr>events := [Exchange (Request GET (Sku 42) None) (Inr 429),
                                Logged WARNING (RateLimitHit 60), Slept 60,
                                Exchange (Request GET (Sku 42) None) (Inr 200)]\<rparr>)"
    by code_simp
  have a: "\<exists>s1. safe_request (\<lambda>h q. Inl Timeout :: exn + unit response)
      (Request GET (Sku 42) None) demo_state = Some (Inr None, s1)"
    using safe_request_never_raises[of "\<lambda>h q. (Inl Timeout :: exn + unit response)"
        "Request GET (Sku 42) None" demo_state "Inr None" demo_state Timeout
        "demo_response 404 (Inr ())"]
    by simp
  have b: "\<exists>s1. safe_request (\<lambda>h q. Inr (demo_response 404 (Inr ())))
      (Request GET (Sku 42) None) demo_state = Some (Inr (Some (demo_response 404 (Inr ()))), s1)"
    using safe_request_never_raises[of "\<lambda>h q. Inr (demo_response 404 (Inr ()))"
        "Request GET (Sku 42) None" demo_state "Inr None" demo_state Timeout
        "demo_response 404 (Inr ())"]
    by (simp add: demo_response_def)
  from a b have "safe_request (\<lambda>h q. Inl Timeout :: exn + unit response)
        (Request GET (Sku 42) None) demo_state
     = Some (Inr None,
         demo_state\<lparr>events := [Exchange (Request GET (Sku 42) None) (Inl Timeout),
                                Logged ERROR (TimeoutOn (Request GET (Sku 42) None))]\<rparr>)
   \<and> safe_request (\<lambda>h q. Inr (demo_response 404 (Inr ()))) (Request GET (Sku 42) None)
      demo_state
     = Some (Inr (Some (demo_response 404 (Inr ()))),
         demo_state\<lparr>events := [Exchange (Request GET (Sku 42) None) (Inr 404)]\<rparr>)"
    by (auto simp: safe_request_raises safe_request_answered handle_exn_def log_message_def
        add_event_def demo_state_def demo_response_def)
  with c show ?thesis by blast
qed

text \<open>
  The retry of a 429 whose \<^verbatim>\<open>Retry-After\<close> header is absent, or an integer of seconds
  that \<^verbatim>\<open>time.sleep\<close> accepts: the wait is logged and slept, and the same request is
  sent again.
\<close>

lemma retry_after_absent: "retry_after response = None \<Longrightarrow> retry_after_seconds response = Inr 60"
  by (simp add: retry_after_seconds_def)

lemma safe_request_rate_limited:
  "session (events s) req = Inr response \<Longrightarrow> status_code response = 429 \<Longrightarrow>
   retry_after_seconds response = Inr n \<Longrightarrow> 0 \<le> n \<Longrightarrow> n \<le> 9223372036 \<Longrightarrow>
     safe_request session req s =
       safe_request session req
         (add_event (Slept n)
            (log_message (RateLimitHit n) WARNING (add_event (Exchange req (Inr 429)) s)))"
  by (subst safe_request.simps) (simp add: time_sleep_def)


section \<open>Processing one SKU: the update\<close>

text \<open>
  What \<open>update_image_alt\<close> does to the state: the events of its request, then one log
  line, which tells a success from a failure. It raises nothing.
\<close>

lemma update_image_alt_result:
  assumes "update_image_alt env sku_id img alt s = Some (r, s')"
  shows "\<exists>s1. extends (request_event (update_request sku_id img alt)) s s1
           \<and> ((r = Inr True \<and> s' = log_message (ImageUpdated alt) INFO s1)
              \<or> (r = Inr False \<and>
                   (s' = log_message AuthError CRITICAL s1
                    \<or> (\<exists>t. s' = log_message (UpdateError sku_id t) ERROR s1))))"
proof -
  from assms obtain x s1 where
    sr: "safe_request (put_file env) (update_request sku_id img alt) s = Some (x, s1)"
    by (auto simp: update_image_alt_def split: option.splits)
  from safe_request_frame[OF sr]
  have e: "extends (request_event (update_request sku_id img alt)) s s1"
    and x: "x = Inr None \<or> (\<exists>response. x = Inr (Some response))" by auto
  from assms sr x
  have "(r = Inr True \<and> s' = log_message (ImageUpdated alt) INFO s1)
              \<or> (r = Inr False \<and>
                   (s' = log_message AuthError CRITICAL s1
                    \<or> (\<exists>t. s' = log_message (UpdateError sku_id t) ERROR s1)))"
    by (auto simp: update_image_alt_def split: if_splits)
  with e show ?thesis by blast
qed

lemma update_image_alt_frame:
  assumes "update_image_alt env sku_id img alt s = Some (r, s')"
  shows "extends (only_request (update_request sku_id img alt)) s s'"
proof -
  from update_image_alt_result[OF assms] obtain s1 l m where
    e: "extends (request_event (update_request sku_id img alt)) s s1"
    and s': "s' = log_message m l s1" by blast
  have "extends (only_request (update_request sku_id img alt)) s1 s'"
    unfolding s' by (rule extends_log) (simp add: only_request_def)
  with extends_mono[OF e request_event_only] show ?thesis
    by (rule extends_trans)
qed

lemma alt_payload_map:
  "map_of (alt_payload img alt) = (map_of img)(''Label'' \<mapsto> JStr alt, ''Text'' \<mapsto> JStr alt)"
  by (simp add: alt_payload_def update_conv')

lemma alt_payload_keys:
  "take (length img) (map fst (alt_payload img alt)) = map fst img"
  by (simp add: alt_payload_def update_keys)

text \<open>
  C10. Every request that \<open>update_image_alt\<close> sends carries the payload
  \<open>alt_payload img alt\<close>: the original image record with the keys \<^verbatim>\<open>Label\<close> and
  \<^verbatim>\<open>Text\<close> set to the new alt text, every other key with the value it had, and the
  keys of the original in their order.
\<close>

theorem update_payload_echo:
  "update_image_alt env sku_id img alt s = Some (r, s') \<Longrightarrow>
     (\<exists>evs. events s' = events s @ evs \<and>
        list_all (only_request
          (Request PUT (SkuFile sku_id (dict_get img ''Id'')) (Some (alt_payload img alt)))) evs)
     \<and> map_of (alt_payload img alt) ''Label'' = Some (JStr alt)
     \<and> map_of (alt_payload img alt) ''Text'' = Some (JStr alt)
     \<and> (\<forall>k. k \<noteq> ''Label'' \<and> k \<noteq> ''Text'' \<longrightarrow> map_of (alt_payload img alt) k = map_of img k)
     \<and> take (length img) (map fst (alt_payload img alt)) = map fst img"
  using update_image_alt_frame[of env sku_id img alt s r s']
  by (simp add: alt_payload_map alt_payload_keys extends_def update_request_def)

theorem update_payload_echo_witness:
  "update_image_alt (demo_env 200) 7 (hd demo_images) ''x_1'' demo_state =
     Some (Inr True, demo_state\<lparr>events :=
       [Exchange (Request PUT (SkuFile 7 (JInt 11))
          (Some [(''Id'', JInt 11), (''Label'', JStr ''x_1''), (''Name'', JStr ''front''),
                 (''Text'', JStr ''x_1'')])) (Inr 200),
        Logged INFO (ImageUpdated ''x_1'')]\<rparr>)
   \<and> map_of (alt_payload (hd demo_images) ''x_1'') ''Name'' = Some (JStr ''front'')
   \<and> map_of (alt_payload (hd demo_images) ''x_1'') ''Label'' = Some (JStr ''x_1'')"
proof -
  have run: "update_image_alt (demo_env 200) 7 (hd demo_images) ''x_1'' demo_state =
     Some (Inr True, demo_state\<lparr>events :=
       [Exchange (Request PUT (SkuFile 7 (JInt 11))
          (Some [(''Id'', JInt 11), (''Label'', JStr ''x_1''), (''Name'', JStr ''front''),
                 (''Text'', JStr ''x_1'')])) (Inr 200),
        Logged INFO (ImageUpdated ''x_1'')]\<rparr>)"
    by code_simp
  from update_payload_echo[OF run]
  have "map_of (alt_payload (hd demo_images) ''x_1'') ''Name'' = map_of (hd demo_images) ''Name''"
    and "map_of (alt_payload (hd demo_images) ''x_1'') ''Label'' = Some (JStr ''x_1'')"
    by simp_all
  with run show ?thesis by (simp add: demo_images_def)
qed

text \<open>
  C8. For a SKU that the checkpoint records as processed, \<open>process_single_sku\<close> returns
  \<^verbatim>\<open>True\<close> at once: all it leaves in the trace is its log line, and no request.
\<close>

theorem processed_sku_skipped:
  "is_processed (ckpt s) sku_id \<Longrightarrow>
     process_single_sku env sku_id s =
       Some (Inr True, s\<lparr>events := events s @ [Logged INFO (AlreadyProcessed sku_id)]\<rparr>)"
  by (simp add: process_single_sku_def log_message_def add_event_def)

theorem processed_sku_skipped_witness:
  "process_single_sku (demo_env 200) 42
      (demo_state\<lparr>ckpt := \<lparr>processed_skus = [41, 42], last_page = 3\<rparr>\<rparr>) =
     Some (Inr True,
       \<lparr>events = [Logged INFO (AlreadyProcessed 42)],
        ckpt = \<lparr>processed_skus = [41, 42], last_page = 3\<rparr>, disk = Missing\<rparr>)"
  using processed_sku_skipped[of "demo_state\<lparr>ckpt := \<lparr>processed_skus = [41, 42], last_page = 3\<rparr>\<rparr>"
      42 "demo_env 200"]
  by (simp add: is_processed_def demo_state_def)

section \<open>The labels of the images\<close>

lemma str_nat_nonempty: "str_nat n \<noteq> []"
  by (subst str_nat.simps) simp

lemma digit_char_inj: "a < 10 \<Longrightarrow> b < 10 \<Longrightarrow> digit_char a = digit_char b \<Longrightarrow> a = b"
proof -
  assume "a < 10" "b < 10" and eq: "digit_char a = digit_char b"
  then have a: "a \<in> {0, 1, 2, 3, 4, 5, 6, 7, 8, 9}" and b: "b \<in> {0, 1, 2, 3, 4, 5, 6, 7, 8, 9}"
    by auto
  from a b eq show ?thesis
    unfolding digit_char_def by (elim insertE emptyE) simp_all
qed

lemma str_nat_inj: "str_nat n = str_nat m \<Longrightarrow> n = m"
proof (induction n arbitrary: m rule: str_nat.induct)
  case (1 n)
  show ?case
  proof (cases "n < 10")
    case True
    note n = this
    show ?thesis
    proof (cases "m < 10")
      case True
      with n 1(2) show ?thesis
        by (simp add: str_nat.simps[of n] str_nat.simps[of m] digit_char_inj)
    next
      case False
      with n 1(2) str_nat_nonempty[of "m div 10"] show ?thesis
        by (simp add: str_nat.simps[of n] str_nat.simps[of m] Cons_eq_append_conv)
    qed
  next
    case False
    note n = this
    show ?thesis
    proof (cases "m < 10")
      case True
      with n 1(2) str_nat_nonempty[of "n div 10"] show ?thesis
        by (simp add: str_nat.simps[of n] str_nat.simps[of m] append_eq_Cons_conv)
    next
      case False
      with n 1(2) have a: "str_nat (n div 10) = str_nat (m div 10)"
        and b: "digit_char (n mod 10) = digit_char (m mod 10)"
        by (simp_all add: str_nat.simps[of n] str_nat.simps[of m])
      from 1(1)[OF n a] have "n div 10 = m div 10" .
      moreover from b have "n mod 10 = m mod 10" by (simp add: digit_char_inj)
      ultimately show ?thesis by (metis div_mult_mod_eq)
    qed
  qed
qed

lemma new_alt_inj: "new_alt x i = new_alt x j \<Longrightarrow> i = j"
  by (simp add: new_alt_def str_nat_inj)

lemma update_event_here:
  "request_event (update_request sku_id img (new_alt x k)) e \<Longrightarrow>
   dict_get_default img ''Label'' (JStr []) \<noteq> JStr (new_alt x k) \<Longrightarrow>
   update_event sku_id x k (img # imgs) e"
  by (cases e)
    (simp_all add: request_event_def update_event_def update_request_def new_alt_def
      enumerate_simps request_msg_worker)

lemma update_event_later:
  "update_event sku_id x (Suc k) imgs e \<Longrightarrow> update_event sku_id x k (img # imgs) e"
  by (cases e) (simp_all add: update_event_def)

lemma update_event_log: "worker_msg m \<Longrightarrow> update_event sku_id x k imgs (Logged l m)"
  by (simp add: update_event_def)

lemma update_image_alt_logs:
  assumes "update_image_alt env sku_id img alt s = Some (r, s')"
  shows "\<exists>s1 l m b. extends (request_event (update_request sku_id img alt)) s s1
           \<and> s' = log_message m l s1 \<and> r = Inr b \<and> worker_msg m"
proof -
  from update_image_alt_result[OF assms] obtain s1 where
    e: "extends (request_event (update_request sku_id img alt)) s s1"
    and c: "(r = Inr True \<and> s' = log_message (ImageUpdated alt) INFO s1)
              \<or> (r = Inr False \<and>
                   (s' = log_message AuthError CRITICAL s1
                    \<or> (\<exists>t. s' = log_message (UpdateError sku_id t) ERROR s1)))" by blast
  have w: "worker_msg (ImageUpdated alt)" "worker_msg AuthError"
    "\<And>t. worker_msg (UpdateError sku_id t)" by (simp_all add: worker_msg_def)
  from c w e show ?thesis by blast
qed

lemma update_images_events:
  "update_images env sku_id x k imgs success s = Some (r, s') \<Longrightarrow>
     extends (update_event sku_id x k imgs) s s'"
proof (induction imgs arbitrary: k success s)
  case Nil
  then show ?case by (simp add: extends_refl)
next
  case (Cons img imgs)
  show ?case
  proof (cases "dict_get_default img ''Label'' (JStr []) \<noteq> JStr (new_alt x k)")
    case True
    with Cons.prems obtain u s1 where
      up: "update_image_alt env sku_id img (new_alt x k) s = Some (u, s1)"
      by (auto split: option.splits)
    from update_image_alt_logs[OF up] obtain s0 l m updated where
      e0: "extends (request_event (update_request sku_id img (new_alt x k))) s s0"
      and s1: "s1 = log_message m l s0" and u: "u = Inr updated" and m: "worker_msg m"
      by blast
    from Cons.prems True up u have
      rest: "update_images env sku_id x (Suc k) imgs (if \<not> updated then False else success) s1
               = Some (r, s')" by simp
    have "extends (update_event sku_id x k (img # imgs)) s s0"
      using e0 by (rule extends_mono) (rule update_event_here[OF _ True])
    moreover have "extends (update_event sku_id x k (img # imgs)) s0 s1"
      unfolding s1 by (rule extends_log) (rule update_event_log[OF m])
    moreover have "extends (update_event sku_id x k (img # imgs)) s1 s'"
      using Cons.IH[OF rest] by (rule extends_mono) (rule update_event_later)
    ultimately show ?thesis by (blast intro: extends_trans)
  next
    case False
    with Cons.prems have
      rest: "update_images env sku_id x (Suc k) imgs success
               (log_message (AlreadyCorrect (new_alt x k)) INFO s) = Some (r, s')" by simp
    have "extends (update_event sku_id x k (img # imgs)) s
            (log_message (AlreadyCorrect (new_alt x k)) INFO s)"
      by (rule extends_log) (simp add: update_event_log worker_msg_def)
    moreover have "extends (update_event sku_id x k (img # imgs))
            (log_message (AlreadyCorrect (new_alt x k)) INFO s) s'"
      using Cons.IH[OF rest] by (rule extends_mono) (rule update_event_later)
    ultimately show ?thesis by (rule extends_trans)
  qed
qed

lemma alt_payload_label: "map_of (alt_payload img alt) ''Label'' = Some (JStr alt)"
  by (simp add: alt_payload_def update_conv')

lemma correct_label_not_submitted:
  assumes evs: "list_all (update_event sku_id x k imgs) evs"
    and pos: "(i, img) \<in> set (enumerate k imgs)"
    and lab: "dict_get_default img ''Label'' (JStr []) = JStr (x @ ''_'' @ str_nat i)"
  shows "\<not> list_ex (submits_label (x @ ''_'' @ str_nat i)) evs"
proof
  assume "list_ex (submits_label (x @ ''_'' @ str_nat i)) evs"
  then obtain e where e: "e \<in> set evs" and sub: "submits_label (x @ ''_'' @ str_nat i) e"
    by (auto simp: list_ex_iff)
  from sub obtain m u d out where ex: "e = Exchange (Request m u (Some d)) out"
    and d: "map_of d ''Label'' = Some (JStr (x @ ''_'' @ str_nat i))"
    by (auto simp: submits_label_def split: event.splits request.splits option.splits)
  from evs e have "update_event sku_id x k imgs e" by (simp add: list_all_iff)
  with ex obtain j img' where pos': "(j, img') \<in> set (enumerate k imgs)"
    and q: "d = alt_payload img' (x @ ''_'' @ str_nat j)"
    and differs: "dict_get_default img' ''Label'' (JStr []) \<noteq> JStr (x @ ''_'' @ str_nat j)"
    by (auto simp: update_event_def list_ex_iff)
  from d q have "str_nat i = str_nat j" by (simp add: alt_payload_label)
  then have "i = j" by (rule str_nat_inj)
  with pos pos' have "img = img'" by (auto simp: in_set_enumerate_eq)
  with lab differs \<open>i = j\<close> show False by simp
qed

text \<open>
  C7. The loop over the images of a SKU, for the slug \<open>x\<close>, numbers the images from 1 in
  the order of the list: the target label of the image at position \<open>i\<close> is \<open>x_i\<close>.
  Every request the loop sends is the update of some image to its target label, for an
  image that does not carry that label yet; and for an image that carries its target
  label already, no request with that label in its payload is sent.
\<close>

theorem label_targets:
  "update_images env sku_id x 1 imgs success s = Some (r, s') \<Longrightarrow>
     (\<exists>evs. events s' = events s @ evs \<and> list_all (update_event sku_id x 1 imgs) evs
        \<and> (\<forall>(i, img) \<in> set (enumerate 1 imgs).
              new_alt x i = x @ ''_'' @ str_nat i
              \<and> (dict_get_default img ''Label'' (JStr []) = JStr (x @ ''_'' @ str_nat i) \<longrightarrow>
                   \<not> list_ex (submits_label (x @ ''_'' @ str_nat i)) evs)))"
proof -
  assume "update_images env sku_id x 1 imgs success s = Some (r, s')"
  from update_images_events[OF this] obtain evs where
    evs: "events s' = events s @ evs" "list_all (update_event sku_id x 1 imgs) evs"
    by (auto simp: extends_def)
  with correct_label_not_submitted[OF evs(2)] show ?thesis
    by (auto simp: new_alt_def)
qed

theorem label_targets_witness:
  "update_images (demo_env 200) 7 ''dipirona-1g'' 1 demo_images True demo_state =
     Some (Inr True, demo_state\<lparr>events :=
       [Exchange (Request PUT (SkuFile 7 (JInt 11))
          (Some [(''Id'', JInt 11), (''Label'', JStr ''dipirona-1g_1''),
                 (''Name'', JStr ''front''), (''Text'', JStr ''dipirona-1g_1'')])) (Inr 200),
        Logged INFO (ImageUpdated ''dipirona-1g_1''),
        Logged INFO (AlreadyCorrect ''dipirona-1g_2'')]\<rparr>)
   \<and> new_alt ''dipirona-1g'' 2 = ''dipirona-1g_2''
   \<and> \<not> list_ex (submits_label ''dipirona-1g_2'')
       [Exchange (Request PUT (SkuFile 7 (JInt 11))
          (Some [(''Id'', JInt 11), (''Label'', JStr ''dipirona-1g_1''),
                 (''Name'', JStr ''front''), (''Text'', JStr ''dipirona-1g_1'')])) (Inr 200),
        Logged INFO (ImageUpdated ''dipirona-1g_1''),
        Logged INFO (AlreadyCorrect ''dipirona-1g_2'')]"
proof -
  let ?evs = "[Exchange (Request PUT (SkuFile 7 (JInt 11))
          (Some [(''Id'', JInt 11), (''Label'', JStr ''dipirona-1g_1''),
                 (''Name'', JStr ''front''), (''Text'', JStr ''dipirona-1g_1'')])) (Inr 200),
        Logged INFO (ImageUpdated ''dipirona-1g_1''),
        Logged INFO (AlreadyCorrect ''dipirona-1g_2'')]"
  have run: "update_images (demo_env 200) 7 ''dipirona-1g'' 1 demo_images True demo_state =
     Some (Inr True, demo_state\<lparr>events := ?evs\<rparr>)"
    by code_simp
  have two: "str_nat 2 = ''2''" by code_simp
  from label_targets[OF run] obtain evs where
    a: "events (demo_state\<lparr>events := ?evs\<rparr>) = events demo_state @ evs"
    and b: "\<forall>(i, img) \<in> set (enumerate 1 demo_images).
              new_alt ''dipirona-1g'' i = ''dipirona-1g'' @ ''_'' @ str_nat i
              \<and> (dict_get_default img ''Label'' (JStr []) = JStr (''dipirona-1g'' @ ''_'' @ str_nat i) \<longrightarrow>
                   \<not> list_ex (submits_label (''dipirona-1g'' @ ''_'' @ str_nat i)) evs)"
    by blast
  from a have evs: "evs = ?evs" by (simp add: demo_state_def)
  have "(2, demo_images ! 1) \<in> set (enumerate 1 demo_images)"
    by (simp add: demo_images_def)
  with b have "new_alt ''dipirona-1g'' 2 = ''dipirona-1g'' @ ''_'' @ str_nat 2
     \<and> (dict_get_default (demo_images ! 1) ''Label'' (JStr []) = JStr (''dipirona-1g'' @ ''_'' @ str_nat 2) \<longrightarrow>
          \<not> list_ex (submits_label (''dipirona-1g'' @ ''_'' @ str_nat 2)) evs)"
    by blast
  then have "new_alt ''dipirona-1g'' 2 = ''dipirona-1g_2''
     \<and> \<not> list_ex (submits_label ''dipirona-1g_2'') evs"
    by (simp add: two demo_images_def dict_get_default_def)
  with run evs show ?thesis by simp
qed

section \<open>The success of a unit\<close>

lemma update_event_unit: "update_event sku_id x k imgs e \<Longrightarrow> unit_event e"
  by (cases e) (simp_all add: update_event_def unit_event_def)

lemma quiet_log: "\<not> update_failed (Logged l (ImageUpdated t))"
  "\<not> update_failed (Logged l (AlreadyCorrect t))" "\<not> update_failed (Logged l (SkipSku n))"
  "\<not> update_failed (Logged l (GetError n c))" "\<not> update_failed (Logged l (SkuInfo n a b))"
  by (simp_all add: update_failed_def)

lemma update_images_success:
  "update_images env sku_id x k imgs success s = Some (Inr True, s') \<Longrightarrow>
     success \<and> extends (\<lambda>e. \<not> update_failed e) s s'"
proof (induction imgs arbitrary: k success s)
  case Nil
  then show ?case by (simp add: extends_refl)
next
  case (Cons img imgs)
  show ?case
  proof (cases "dict_get_default img ''Label'' (JStr []) \<noteq> JStr (new_alt x k)")
    case True
    with Cons.prems obtain u s1 where
      up: "update_image_alt env sku_id img (new_alt x k) s = Some (u, s1)"
      by (auto split: option.splits)
    from update_image_alt_result[OF up] obtain s0 where
      e0: "extends (request_event (update_request sku_id img (new_alt x k))) s s0"
      and u: "(u = Inr True \<and> s1 = log_message (ImageUpdated (new_alt x k)) INFO s0)
              \<or> u = Inr False" by blast
    show ?thesis
    proof (cases "u = Inr False")
      case True
      with Cons.prems \<open>dict_get_default img ''Label'' (JStr []) \<noteq> JStr (new_alt x k)\<close> up
      have "update_images env sku_id x (Suc k) imgs False s1 = Some (Inr True, s')" by simp
      from Cons.IH[OF this] show ?thesis by simp
    next
      case False
      with u have u1: "u = Inr True" and s1: "s1 = log_message (ImageUpdated (new_alt x k)) INFO s0"
        by auto
      from Cons.prems True up u1 have
        rest: "update_images env sku_id x (Suc k) imgs success s1 = Some (Inr True, s')" by simp
      have "extends (\<lambda>e. \<not> update_failed e) s s0"
        using e0 by (rule extends_mono) (rule request_event_quiet)
      moreover have "extends (\<lambda>e. \<not> update_failed e) s0 s1"
        unfolding s1 by (rule extends_log) (rule quiet_log)
      ultimately show ?thesis using Cons.IH[OF rest] by (blast intro: extends_trans)
    qed
  next
    case False
    with Cons.prems have
      rest: "update_images env sku_id x (Suc k) imgs success
               (log_message (AlreadyCorrect (new_alt x k)) INFO s) = Some (Inr True, s')" by simp
    have "extends (\<lambda>e. \<not> update_failed e) s (log_message (AlreadyCorrect (new_alt x k)) INFO s)"
      by (rule extends_log) (rule quiet_log)
    with Cons.IH[OF rest] show ?thesis by (blast intro: extends_trans)
  qed
qed

text \<open>What the two fetches of a unit and the loop over its images leave in the state.\<close>

lemma get_sku_details_frame:
  assumes "get_sku_details env sku_id s = Some (r, s')"
  shows "extends (request_event (Request GET (Sku sku_id) None)) s s'"
proof -
  from assms obtain x s1 where
    sr: "safe_request (sku_detail env) (Request GET (Sku sku_id) None) s = Some (x, s1)"
    by (auto simp: get_sku_details_def split: option.splits)
  from assms sr have "s' = s1"
    by (auto simp: get_sku_details_def split: sum.splits option.splits if_splits)
  with safe_request_frame[OF sr] show ?thesis by simp
qed

lemma process_sku_images_cases:
  assumes "process_sku_images env sku_id product_name s = Some (r, s')"
  shows "\<exists>s1. extends (request_event (Request GET (SkuFiles sku_id) None)) s s1 \<and>
           (s' = s1 \<or> s' = log_message (SkipSku sku_id) INFO s1
            \<or> (\<exists>c. s' = log_message (GetError sku_id c) ERROR s1)
            \<or> (\<exists>x imgs. update_images env sku_id x 1 imgs True s1 = Some (r, s')))"
proof -
  from assms obtain x s1 where
    sr: "safe_request (sku_files env) (Request GET (SkuFiles sku_id) None) s = Some (x, s1)"
    by (auto simp: process_sku_images_def split: option.splits)
  from assms sr have "s' = s1 \<or> s' = log_message (SkipSku sku_id) INFO s1
            \<or> (\<exists>c. s' = log_message (GetError sku_id c) ERROR s1)
            \<or> (\<exists>x imgs. update_images env sku_id x 1 imgs True s1 = Some (r, s'))"
    by (auto simp: process_sku_images_def split: sum.splits option.splits if_splits)
  with safe_request_frame[OF sr] show ?thesis by auto
qed

lemma process_sku_images_frame:
  assumes "process_sku_images env sku_id product_name s = Some (r, s')"
  shows "extends unit_event s s'"
proof -
  from process_sku_images_cases[OF assms] obtain s1 where
    e: "extends (request_event (Request GET (SkuFiles sku_id) None)) s s1"
    and c: "s' = s1 \<or> s' = log_message (SkipSku sku_id) INFO s1
            \<or> (\<exists>c. s' = log_message (GetError sku_id c) ERROR s1)
            \<or> (\<exists>x imgs. update_images env sku_id x 1 imgs True s1 = Some (r, s'))" by blast
  have e': "extends unit_event s s1" using e by (rule extends_mono) (rule request_event_unit)
  have l: "extends unit_event s1 (log_message m l s1)" if "worker_msg m" for m l
    by (rule extends_log) (simp add: unit_event_def that)
  have "extends unit_event s1 s'"
    using c l extends_mono[OF update_images_events update_event_unit]
    by (auto simp: extends_refl worker_msg_def)
  with e' show ?thesis by (rule extends_trans)
qed

lemma process_sku_images_success:
  assumes "process_sku_images env sku_id product_name s = Some (Inr True, s')"
  shows "extends (\<lambda>e. \<not> update_failed e) s s'"
proof -
  from process_sku_images_cases[OF assms] obtain s1 where
    e: "extends (request_event (Request GET (SkuFiles sku_id) None)) s s1"
    and c: "s' = s1 \<or> s' = log_message (SkipSku sku_id) INFO s1
            \<or> (\<exists>c. s' = log_message (GetError sku_id c) ERROR s1)
            \<or> (\<exists>x imgs. update_images env sku_id x 1 imgs True s1 = Some (Inr True, s'))"
    by blast
  have e': "extends (\<lambda>e. \<not> update_failed e) s s1"
    using e by (rule extends_mono) (rule request_event_quiet)
  have "extends (\<lambda>e. \<not> update_failed e) s1 s'"
    using c update_images_success
    by (auto simp: extends_refl quiet_log intro!: extends_log)
  with e' show ?thesis by (rule extends_trans)
qed

text \<open>
  C5. An update that does not return \<^verbatim>\<open>True\<close> returns \<^verbatim>\<open>False\<close> and leaves its error
  line as the last event; \<open>process_sku_images\<close> returns \<^verbatim>\<open>True\<close> only when the trace
  it leaves has no such line, that is when every update it attempted succeeded; and
  \<open>process_single_sku\<close> marks the SKU processed exactly when the SKU was not marked,
  its details gave a name that is true, and \<open>process_sku_images\<close> returned \<^verbatim>\<open>True\<close>
  for it. Otherwise the checkpoint is left as it was.
\<close>

theorem unit_success_marks:
  "(update_image_alt env sku_id img alt sa = Some (r0, sa') \<longrightarrow>
      r0 = Inr True \<or> (r0 = Inr False \<and> update_failed (last (events sa'))))
   \<and> (process_sku_images env sku_id name sb = Some (Inr True, sb') \<longrightarrow>
      (\<exists>evs. events sb' = events sb @ evs \<and> \<not> list_ex update_failed evs))
   \<and> (process_single_sku env sku_id s = Some (r, s2) \<longrightarrow>
      (if \<not> is_processed (ckpt s) sku_id \<and>
          (\<exists>product_name ref_id s1 s3.
              get_sku_details env sku_id s = Some (Inr (product_name, ref_id), s1)
              \<and> truthy product_name
              \<and> process_sku_images env sku_id product_name
                   (log_message (SkuInfo sku_id ref_id product_name) INFO s1)
                 = Some (Inr True, s3))
       then r = Inr True \<and> ckpt s2 = mark_processed (ckpt s) sku_id \<and> ckpt s2 \<noteq> ckpt s
       else ckpt s2 = ckpt s))"
proof (intro conjI impI)
  assume "update_image_alt env sku_id img alt sa = Some (r0, sa')"
  from update_image_alt_result[OF this]
  show "r0 = Inr True \<or> (r0 = Inr False \<and> update_failed (last (events sa')))"
    by (auto simp: log_message_def add_event_def update_failed_def)
next
  assume "process_sku_images env sku_id name sb = Some (Inr True, sb')"
  from process_sku_images_success[OF this]
  show "\<exists>evs. events sb' = events sb @ evs \<and> \<not> list_ex update_failed evs"
    by (auto simp: extends_def list_all_iff list_ex_iff)
next
  assume run: "process_single_sku env sku_id s = Some (r, s2)"
  show "if \<not> is_processed (ckpt s) sku_id \<and>
          (\<exists>product_name ref_id s1 s3.
              get_sku_details env sku_id s = Some (Inr (product_name, ref_id), s1)
              \<and> truthy product_name
              \<and> process_sku_images env sku_id product_name
                   (log_message (SkuInfo sku_id ref_id product_name) INFO s1)
                 = Some (Inr True, s3))
       then r = Inr True \<and> ckpt s2 = mark_processed (ckpt s) sku_id \<and> ckpt s2 \<noteq> ckpt s
       else ckpt s2 = ckpt s"
  proof (cases "is_processed (ckpt s) sku_id")
    case True
    with run show ?thesis by (auto simp: process_single_sku_def log_message_def add_event_def)
  next
    case False
    note fresh = this
    with run obtain d s1 where det: "get_sku_details env sku_id s = Some (d, s1)"
      by (auto simp: process_single_sku_def split: option.splits)
    from get_sku_details_frame[OF det] have c1: "ckpt s1 = ckpt s" by (simp add: extends_def)
    show ?thesis
    proof (cases d)
      case (Inl e)
      with run fresh det c1 show ?thesis by (auto simp: process_single_sku_def)
    next
      case (Inr p)
      obtain product_name ref_id where p: "p = (product_name, ref_id)" by (cases p)
      show ?thesis
      proof (cases "truthy product_name")
        case False
        with run fresh det Inr p c1 show ?thesis
          by (auto simp: process_single_sku_def log_message_def add_event_def)
      next
        case True
        define s1' where "s1' = log_message (SkuInfo sku_id ref_id product_name) INFO s1"
        from run fresh det Inr p True obtain u s3 where
          im: "process_sku_images env sku_id product_name s1' = Some (u, s3)"
          by (auto simp: process_single_sku_def s1'_def split: option.splits)
        from process_sku_images_frame[OF im] c1 have c3: "ckpt s3 = ckpt s"
          by (simp add: extends_def s1'_def log_message_def add_event_def)
        from fresh have ne: "mark_processed (ckpt s) sku_id \<noteq> ckpt s"
          by (simp add: mark_processed_def is_processed_def)
            (metis append_self_conv checkpoint.select_convs(1) checkpoint.surjective
              checkpoint.update_convs(1) not_Cons_self2)
        from run fresh det Inr p True im c3 ne show ?thesis
          by (auto simp: process_single_sku_def s1'_def split: sum.splits if_splits)
      qed
    qed
  qed
qed

theorem unit_success_marks_witness:
  "process_single_sku (demo_env 200) 7 demo_state =
     Some (Inr True,
       \<lparr>events =
          [Exchange (Request GET (Sku 7) None) (Inr 200),
           Logged INFO (SkuInfo 7 (JStr ''R7'') (JStr ''Dipirona 1g'')),
           Exchange (Request GET (SkuFiles 7) None) (Inr 200),
           Exchange (Request PUT (SkuFile 7 (JInt 11))
             (Some [(''Id'', JInt 11), (''Label'', JStr ''dipirona-1g_1''),
                    (''Name'', JStr ''front''), (''Text'', JStr ''dipirona-1g_1'')])) (Inr 200),
           Logged INFO (ImageUpdated ''dipirona-1g_1''),
           Logged INFO (AlreadyCorrect ''dipirona-1g_2'')],
        ckpt = \<lparr>processed_skus = [7], last_page = 1\<rparr>, disk = Missing\<rparr>)
   \<and> mark_processed (ckpt demo_state) 7 = \<lparr>processed_skus = [7], last_page = 1\<rparr>
   \<and> (\<exists>s2. process_single_sku (demo_env 401) 7 demo_state = Some (Inr False, s2)
          \<and> ckpt s2 = ckpt demo_state
          \<and> list_ex update_failed (events s2))"
proof -
  let ?s1 = "demo_state\<lparr>events := [Exchange (Request GET (Sku 7) None) (Inr 200)]\<rparr>"
  let ?s1' = "log_message (SkuInfo 7 (JStr ''R7'') (JStr ''Dipirona 1g'')) INFO ?s1"
  let ?s2 = "\<lparr>events =
          [Exchange (Request GET (Sku 7) None) (Inr 200),
           Logged INFO (SkuInfo 7 (JStr ''R7'') (JStr ''Dipirona 1g'')),
           Exchange (Request GET (SkuFiles 7) None) (Inr 200),
           Exchange (Request PUT (SkuFile 7 (JInt 11))
             (Some [(''Id'', JInt 11), (''Label'', JStr ''dipirona-1g_1''),
                    (''Name'', JStr ''front''), (''Text'', JStr ''dipirona-1g_1'')])) (Inr 200),
           Logged INFO (ImageUpdated ''dipirona-1g_1''),
           Logged INFO (AlreadyCorrect ''dipirona-1g_2'')],
        ckpt = \<lparr>processed_skus = [7], last_page = 1\<rparr>, disk = Missing\<rparr>"
  have run: "process_single_sku (demo_env 200) 7 demo_state = Some (Inr True, ?s2)"
    by code_simp
  have fresh: "\<not> is_processed (ckpt demo_state) 7" by code_simp
  have det: "get_sku_details (demo_env 200) 7 demo_state
      = Some (Inr (JStr ''Dipirona 1g'', JStr ''R7''), ?s1)"
    by code_simp
  have im: "process_sku_images (demo_env 200) 7 (JStr ''Dipirona 1g'') ?s1'
      = Some (Inr True, ?s2\<lparr>ckpt := initial_checkpoint\<rparr>)"
    by code_simp
  have "truthy (JStr ''Dipirona 1g'')" by simp
  with fresh det im have cond: "\<not> is_processed (ckpt demo_state) 7 \<and>
          (\<exists>product_name ref_id s1 s3.
              get_sku_details (demo_env 200) 7 demo_state = Some (Inr (product_name, ref_id), s1)
              \<and> truthy product_name
              \<and> process_sku_images (demo_env 200) 7 product_name
                   (log_message (SkuInfo 7 ref_id product_name) INFO s1)
                 = Some (Inr True, s3))"
    by blast
  from unit_success_marks[of "demo_env 200" 7 "hd demo_images" "''x_1''" demo_state
      "Inr True" demo_state "JStr ''Dipirona 1g''" demo_state demo_state demo_state
      "Inr True" ?s2] run cond
  have marked: "ckpt ?s2 = mark_processed (ckpt demo_state) 7" by simp
  have bad: "process_single_sku (demo_env 401) 7 demo_state = Some (Inr False,
       \<lparr>events =
          [Exchange (Request GET (Sku 7) None) (Inr 200),
           Logged INFO (SkuInfo 7 (JStr ''R7'') (JStr ''Dipirona 1g'')),
           Exchange (Request GET (SkuFiles 7) None) (Inr 200),
           Exchange (Request PUT (SkuFile 7 (JInt 11))
             (Some [(''Id'', JInt 11), (''Label'', JStr ''dipirona-1g_1''),
                    (''Name'', JStr ''front''), (''Text'', JStr ''dipirona-1g_1'')])) (Inr 401),
           Logged ERROR (UpdateError 7 ''No response''),
           Logged INFO (AlreadyCorrect ''dipirona-1g_2'')],
        ckpt = initial_checkpoint, disk = Missing\<rparr>)"
    by code_simp
  from run marked bad show ?thesis
    by (simp add: demo_state_def update_failed_def)
qed

section \<open>The runner\<close>

lemma grows_refl: "grows P s s"
  by (simp add: grows_def)

lemma grows_trans: "grows P s s1 \<Longrightarrow> grows P s1 s2 \<Longrightarrow> grows P s s2"
  by (auto simp: grows_def)

lemma grows_add_event: "P e \<Longrightarrow> grows P s (add_event e s)"
  by (simp add: grows_def add_event_def)

lemma grows_log: "P (Logged l m) \<Longrightarrow> grows P s (log_message m l s)"
  by (simp add: log_message_def grows_add_event)

lemma grows_mono: "grows P s s' \<Longrightarrow> (\<And>e. P e \<Longrightarrow> Q e) \<Longrightarrow> grows Q s s'"
  by (auto simp: grows_def list_all_iff)

lemma extends_grows: "extends P s s' \<Longrightarrow> grows P s s'"
  by (auto simp: extends_def grows_def)

lemma grows_ckpt_update: "grows P s s' \<Longrightarrow> grows P s (s'\<lparr>ckpt := c\<rparr>)"
  by (simp add: grows_def)

lemma save_result:
  "save env s = Some s' \<Longrightarrow> s' = add_event (Saved (ckpt s)) (s\<lparr>disk := Present (Inr (ckpt s))\<rparr>)"
  by (auto simp: save_def split: if_splits)

text \<open>A unit leaves exchanges, sleeps and log lines, and the page of the checkpoint as it was.\<close>

lemma process_single_sku_frame:
  assumes run: "process_single_sku env sku_id s = Some (r, s')"
  shows "grows unit_event s s' \<and> last_page (ckpt s') = last_page (ckpt s)"
proof (cases "is_processed (ckpt s) sku_id")
  case True
  with run have "s' = log_message (AlreadyProcessed sku_id) INFO s"
    by (simp add: process_single_sku_def)
  then show ?thesis
    by (simp add: grows_log unit_event_def worker_msg_def)
      (simp add: log_message_def add_event_def)
next
  case False
  note fresh = this
  with run obtain d s1 where det: "get_sku_details env sku_id s = Some (d, s1)"
    by (auto simp: process_single_sku_def split: option.splits)
  from get_sku_details_frame[OF det]
  have e1: "extends unit_event s s1" by (rule extends_mono) (rule request_event_unit)
  have l: "extends unit_event t (log_message m l t)" if "worker_msg m" for m l t
    by (rule extends_log) (simp add: unit_event_def that)
  show ?thesis
  proof (cases d)
    case (Inl e)
    with run fresh det have "s' = s1" by (simp add: process_single_sku_def)
    with e1 show ?thesis by (simp add: extends_grows) (simp add: extends_def)
  next
    case (Inr p)
    obtain product_name ref_id where p: "p = (product_name, ref_id)" by (cases p)
    show ?thesis
    proof (cases "truthy product_name")
      case False
      with run fresh det Inr p have "s' = log_message (Ignored sku_id) WARNING s1"
        by (simp add: process_single_sku_def)
      with extends_trans[OF e1 l, of "Ignored sku_id"] have "extends unit_event s s'"
        by (simp add: worker_msg_def)
      then show ?thesis by (simp add: extends_grows) (simp add: extends_def)
    next
      case True
      define s1' where "s1' = log_message (SkuInfo sku_id ref_id product_name) INFO s1"
      from run fresh det Inr p True obtain u s3 where
        im: "process_sku_images env sku_id product_name s1' = Some (u, s3)"
        by (auto simp: process_single_sku_def s1'_def split: option.splits)
      have "extends unit_event s s1'" unfolding s1'_def
        by (rule extends_trans[OF e1 l]) (simp add: worker_msg_def)
      with process_sku_images_frame[OF im] have e3: "extends unit_event s s3"
        by (blast intro: extends_trans)
      from run fresh det Inr p True im
      have "s' = s3 \<or> s' = s3\<lparr>ckpt := mark_processed (ckpt s3) sku_id\<rparr>"
        by (auto simp: process_single_sku_def s1'_def split: sum.splits if_splits)
      then show ?thesis
      proof
        assume "s' = s3"
        with e3 show ?thesis by (simp add: extends_grows) (simp add: extends_def)
      next
        assume s': "s' = s3\<lparr>ckpt := mark_processed (ckpt s3) sku_id\<rparr>"
        from e3 have "grows unit_event s s'" unfolding s'
          by (intro grows_ckpt_update extends_grows)
        moreover from e3 have "last_page (ckpt s') = last_page (ckpt s)"
          by (simp add: s' extends_def mark_processed_def)
        ultimately show ?thesis by simp
      qed
    qed
  qed
qed

subsection \<open>Reading the order of the saves\<close>

lemma page_order_append:
  "page_order st (a @ b) =
     (case page_order st a of None \<Rightarrow> None | Some st1 \<Rightarrow> page_order st1 b)"
  by (induction a arbitrary: st) (simp_all split: option.splits)

lemma page_order_unit: "list_all unit_event evs \<Longrightarrow> page_order st evs = Some st"
proof (induction evs)
  case Nil
  then show ?case by simp
next
  case (Cons e evs)
  obtain p pending where st: "st = (p, pending)" by (cases st)
  from Cons show ?case
    by (cases e) (auto simp: unit_event_def st worker_msg_def split: msg.splits)
qed

lemma page_order_grows:
  assumes "grows unit_event s s'"
  obtains evs where "events s' = events s @ evs" "page_order st evs = Some st"
    "\<not> list_ex is_dispatch evs"
proof -
  from assms obtain evs where evs: "events s' = events s @ evs" "list_all unit_event evs"
    by (auto simp: grows_def)
  have "\<not> list_ex is_dispatch evs"
    using evs(2) by (auto simp: list_all_iff list_ex_iff unit_event_def is_dispatch_def
        split: event.splits)
  with evs page_order_unit[OF evs(2), of st] that show ?thesis by blast
qed

text \<open>
  The pool of a page: its units complete in turn, the saves between them hold the page
  the checkpoint stands at, and the page of the checkpoint is as it was.
\<close>

lemma run_page_order:
  "run_page env ids n s = Some (n', s') \<Longrightarrow>
     last_page (ckpt s') = last_page (ckpt s) \<and>
     (\<exists>evs. events s' = events s @ evs
        \<and> page_order (last_page (ckpt s), Some ids) evs = Some (last_page (ckpt s), Some [])
        \<and> \<not> list_ex is_dispatch evs)"
proof (induction ids arbitrary: n s)
  case Nil
  then show ?case by simp
next
  case (Cons sku_id ids)
  let ?p = "last_page (ckpt s)"
  from Cons.prems obtain r s1 where
    unit: "process_single_sku env sku_id s = Some (r, s1)"
    by (auto split: option.splits)
  from process_single_sku_frame[OF unit]
  have g1: "grows unit_event s s1" and p1: "last_page (ckpt s1) = ?p" by simp_all
  from g1 obtain evs1 where evs1: "events s1 = events s @ evs1"
    "page_order (?p, Some (sku_id # ids)) evs1 = Some (?p, Some (sku_id # ids))"
    "\<not> list_ex is_dispatch evs1"
    by (rule page_order_grows)
  define s2 where "s2 = add_event (Completed sku_id r) s1"
  show ?case
  proof (cases "(n + 1) mod CHECKPOINT_INTERVAL = 0")
    case False
    with Cons.prems unit have rest: "run_page env ids (n + 1) s2 = Some (n', s')"
      by (simp add: s2_def Let_def)
    have p2: "last_page (ckpt s2) = ?p" by (simp add: s2_def add_event_def p1)
    from Cons.IH[OF rest] p2 obtain evs where
      evs: "events s' = events s2 @ evs" "page_order (?p, Some ids) evs = Some (?p, Some [])"
      "\<not> list_ex is_dispatch evs" and p': "last_page (ckpt s') = ?p"
      by auto
    have "events s' = events s @ (evs1 @ [Completed sku_id r] @ evs)"
      by (simp add: evs(1) s2_def add_event_def evs1(1))
    moreover have "page_order (?p, Some (sku_id # ids)) (evs1 @ [Completed sku_id r] @ evs)
        = Some (?p, Some [])"
      by (simp add: page_order_append evs1(2) evs(2))
    moreover have "\<not> list_ex is_dispatch (evs1 @ [Completed sku_id r] @ evs)"
      using evs1(3) evs(3) by (simp add: is_dispatch_def)
    ultimately show ?thesis using p' by blast
  next
    case True
    with Cons.prems unit obtain s3 where sv: "save env s2 = Some s3"
      and rest: "run_page env ids (n + 1)
                   (log_message (CheckpointSaved (n + 1)) INFO s3) = Some (n', s')"
      by (auto simp: s2_def Let_def split: option.splits)
    define s4 where "s4 = log_message (CheckpointSaved (n + 1)) INFO s3"
    from save_result[OF sv] have s3: "s3 = add_event (Saved (ckpt s2)) (s2\<lparr>disk := Present (Inr (ckpt s2))\<rparr>)" .
    have c2: "last_page (ckpt s2) = ?p" by (simp add: s2_def add_event_def p1)
    have p4: "last_page (ckpt s4) = ?p"
      by (simp add: s4_def s3 log_message_def add_event_def c2)
    have ev4: "events s4 = events s @ (evs1 @ [Completed sku_id r, Saved (ckpt s2),
        Logged INFO (CheckpointSaved (n + 1))])"
      by (simp add: s4_def s3 s2_def log_message_def add_event_def evs1(1))
    from Cons.IH[OF rest[folded s4_def]] p4 obtain evs where
      evs: "events s' = events s4 @ evs" "page_order (?p, Some ids) evs = Some (?p, Some [])"
      "\<not> list_ex is_dispatch evs" and p': "last_page (ckpt s') = ?p"
      by auto
    have "events s' = events s @ (evs1 @ [Completed sku_id r, Saved (ckpt s2),
        Logged INFO (CheckpointSaved (n + 1))] @ evs)"
      by (simp add: evs(1) ev4)
    moreover have "page_order (?p, Some (sku_id # ids)) (evs1 @ [Completed sku_id r,
        Saved (ckpt s2), Logged INFO (CheckpointSaved (n + 1))] @ evs) = Some (?p, Some [])"
      by (simp add: page_order_append evs1(2) evs(2) c2)
    moreover have "\<not> list_ex is_dispatch (evs1 @ [Completed sku_id r, Saved (ckpt s2),
        Logged INFO (CheckpointSaved (n + 1))] @ evs)"
      using evs1(3) evs(3) by (simp add: is_dispatch_def)
    ultimately show ?thesis using p' by blast
  qed
qed

lemma page_iteration_cases:
  assumes "page_iteration env page n s = Some t"
  obtains
    (stop) x s1 m l where
      "safe_request (list_ids env) (Request GET (SkuIds page 50) None) s = Some (x, s1)"
      "t = Break (n, log_message m l s1)" "\<forall>k. m \<noteq> CheckpointSaved k"
  | (fatal) x s1 e s2 where
      "safe_request (list_ids env) (Request GET (SkuIds page 50) None) s = Some (x, s1)"
      "save env (log_message (FatalError e) CRITICAL s1) = Some s2" "t = Break (n, s2)"
  | (continue) response s1 ids n' s2 s3 where
      "safe_request (list_ids env) (Request GET (SkuIds page 50) None) s
         = Some (Inr (Some response), s1)"
      "status_code response = 200"
      "run_page env ids n (add_event (Dispatched page ids)
          (log_message (ProcessingPage page (length ids)) INFO s1)) = Some (n', s2)"
      "save env (s2\<lparr>ckpt := update_page (ckpt s2) (page + 1)\<rparr>) = Some s3"
      "t = Continue (n', s3)"
  using assms
  unfolding page_iteration_def fatal_def
  by (auto split: option.splits sum.splits if_splits)

lemma listing_grows:
  assumes "safe_request session req s = Some (x, s1)"
  obtains evs where "events s1 = events s @ evs" "page_order st evs = Some st"
    "\<not> list_ex is_dispatch evs" "ckpt s1 = ckpt s"
proof -
  from safe_request_frame[OF assms] have e: "extends (request_event req) s s1" by simp
  then have "grows unit_event s s1"
    by (intro extends_grows extends_mono[OF e] request_event_unit)
  moreover from e have "ckpt s1 = ckpt s" by (simp add: extends_def)
  ultimately show ?thesis using that by (elim page_order_grows) blast
qed

text \<open>
  One turn of the loop, started with the checkpoint at the page of the turn: a turn
  that leaves the loop saves at most the page it stands at, and dispatches nothing it
  does not complete; a turn that goes on has dispatched the page, completed its units
  and only then saved the next page.
\<close>

lemma page_iteration_order:
  assumes it: "page_iteration env page n s = Some t" and inv: "last_page (ckpt s) = page"
  shows "\<exists>evs n' s'. events s' = events s @ evs \<and>
           ((t = Break (n', s') \<and> page_order (page, None) evs = Some (page, None))
            \<or> (t = Continue (n', s') \<and> last_page (ckpt s') = page + 1
                 \<and> page_order (page, None) evs = Some (page + 1, None)))"
  using it
proof (cases rule: page_iteration_cases)
  case (stop x s1 m l)
  from listing_grows[OF stop(1), of "(page, None)"] obtain evs where
    evs: "events s1 = events s @ evs" "page_order (page, None) evs = Some (page, None)"
    by blast
  from stop(3) have nock: "\<And>k. m \<noteq> CheckpointSaved k" by simp
  have "events (log_message m l s1) = events s @ (evs @ [Logged l m])"
    by (simp add: log_message_def add_event_def evs(1))
  moreover have "page_order (page, None) (evs @ [Logged l m]) = Some (page, None)"
    using nock by (cases m) (auto simp: page_order_append evs(2))
  ultimately show ?thesis using stop(2) by blast
next
  case (fatal x s1 e s2)
  from listing_grows[OF fatal(1), of "(page, None)"] obtain evs where
    evs: "events s1 = events s @ evs" "page_order (page, None) evs = Some (page, None)"
    and c1: "ckpt s1 = ckpt s"
    by blast
  from save_result[OF fatal(2)]
  have "events s2 = events s @ (evs @ [Logged CRITICAL (FatalError e), Saved (ckpt s)])"
    by (simp add: log_message_def add_event_def evs(1) c1)
  moreover have "page_order (page, None)
      (evs @ [Logged CRITICAL (FatalError e), Saved (ckpt s)]) = Some (page, None)"
    by (simp add: page_order_append evs(2) inv)
  ultimately show ?thesis using fatal(3) by blast
next
  case (continue response s1 ids n' s2 s3)
  from listing_grows[OF continue(1), of "(page, None)"] obtain evs where
    evs: "events s1 = events s @ evs" "page_order (page, None) evs = Some (page, None)"
    and c1: "ckpt s1 = ckpt s"
    by blast
  define s1' where "s1' = add_event (Dispatched page ids)
          (log_message (ProcessingPage page (length ids)) INFO s1)"
  have p1: "last_page (ckpt s1') = page"
    by (simp add: s1'_def log_message_def add_event_def c1 inv)
  from run_page_order[OF continue(3)[folded s1'_def]] p1 obtain evs1 where
    evs1: "events s2 = events s1' @ evs1"
      "page_order (page, Some ids) evs1 = Some (page, Some [])"
    and p2: "last_page (ckpt s2) = page" by auto
  from save_result[OF continue(4)]
  have s3: "s3 = add_event (Saved (update_page (ckpt s2) (page + 1)))
      (s2\<lparr>ckpt := update_page (ckpt s2) (page + 1),
          disk := Present (Inr (update_page (ckpt s2) (page + 1)))\<rparr>)"
    by simp
  have "events s3 = events s @ (evs @ [Logged INFO (ProcessingPage page (length ids)),
      Dispatched page ids] @ evs1 @ [Saved (update_page (ckpt s2) (page + 1))])"
    by (simp add: s3 add_event_def evs1(1) s1'_def log_message_def evs(1))
  moreover have "page_order (page, None) (evs @ [Logged INFO (ProcessingPage page (length ids)),
      Dispatched page ids] @ evs1 @ [Saved (update_page (ckpt s2) (page + 1))])
      = Some (page + 1, None)"
    by (simp add: page_order_append evs(2) evs1(2) update_page_def)
  moreover have "last_page (ckpt s3) = page + 1"
    by (simp add: s3 add_event_def update_page_def)
  ultimately show ?thesis using continue(5) by blast
qed

lemma page_loop_order:
  assumes "page_loop env page n s = Some y"
  shows "last_page (ckpt s) = page \<longrightarrow>
     (\<exists>evs st. events (snd y) = events s @ evs \<and> page_order (page, None) evs = Some st)"
proof (rule page_loop.raw_induct[where P = "\<lambda>env page n s y. last_page (ckpt s) = page \<longrightarrow>
     (\<exists>evs st. events (snd y) = events s @ evs \<and> page_order (page, None) evs = Some st)",
     OF _ assms], goal_cases)
  case (1 f env page n s y)
  show ?case
  proof
    assume inv: "last_page (ckpt s) = page"
    from 1(2) obtain t where it: "page_iteration env page n s = Some t"
      by (auto split: option.splits)
    from page_iteration_order[OF it inv] obtain evs n' s' where
      ev: "events s' = events s @ evs"
      and t: "(t = Break (n', s') \<and> page_order (page, None) evs = Some (page, None))
            \<or> (t = Continue (n', s') \<and> last_page (ckpt s') = page + 1
                 \<and> page_order (page, None) evs = Some (page + 1, None))" by blast
    from t show "\<exists>evs st. events (snd y) = events s @ evs \<and> page_order (page, None) evs = Some st"
    proof
      assume b: "t = Break (n', s') \<and> page_order (page, None) evs = Some (page, None)"
      with 1(2) it have "y = (n', s')" by simp
      with ev b show ?thesis by auto
    next
      assume c: "t = Continue (n', s') \<and> last_page (ckpt s') = page + 1
                 \<and> page_order (page, None) evs = Some (page + 1, None)"
      with 1(2) it have "f env (page + 1) n' s' = Some y" by simp
      from 1(1)[OF this] c obtain evs' st where
        "events (snd y) = events s' @ evs'" "page_order (page + 1, None) evs' = Some st"
        by auto
      with ev c have "events (snd y) = events s @ (evs @ evs')"
        "page_order (page, None) (evs @ evs') = Some st"
        by (simp_all add: page_order_append)
      then show ?thesis by blast
    qed
  qed
qed

text \<open>
  C3. The trace of every run that ends keeps the order of \<open>page_order\<close>, read from the
  page the checkpoint starts at: the checkpoint is saved with \<open>last_page = p + 1\<close> only
  after page \<open>p\<close> was dispatched and every unit of it has completed, with whatever
  result, and the periodic saves during page \<open>p\<close> hold \<open>last_page = p\<close>.
\<close>

theorem page_advance_order:
  "run_bulk_update env resume s = Some s' \<Longrightarrow>
     (\<exists>evs st. events s' = events s @ evs
        \<and> page_order
             (last_page (if resume then load (disk s) else initial_checkpoint), None) evs
           = Some st)"
proof -
  assume run: "run_bulk_update env resume s = Some s'"
  define c0 where "c0 = (if resume then load (disk s) else initial_checkpoint)"
  define s1 where "s1 = s\<lparr>ckpt := load (disk s)\<rparr>"
  from run have "\<exists>s2. (if \<not> resume
          then map_option (log_message StartingFresh INFO) (clear env s1)
          else Some s1) = Some s2"
    unfolding run_bulk_update_def Let_def s1_def by (auto split: option.splits)
  then obtain s2 where
    s2: "(if \<not> resume then map_option (log_message StartingFresh INFO) (clear env s1)
          else Some s1) = Some s2" by blast
  have "\<exists>evs0. events s2 = events s @ evs0 \<and> ckpt s2 = c0
      \<and> page_order (last_page c0, None) evs0 = Some (last_page c0, None)"
  proof (cases resume)
    case True
    with s2 have "s2 = s1" by simp
    then have "events s2 = events s @ []" "ckpt s2 = c0"
      using True by (simp_all add: s1_def c0_def)
    moreover have "page_order (last_page c0, None) [] = Some (last_page c0, None)" by simp
    ultimately show ?thesis by blast
  next
    case False
    with s2 obtain s1' where sv: "save env (s1\<lparr>ckpt := initial_checkpoint\<rparr>) = Some s1'"
      and s2': "s2 = log_message StartingFresh INFO s1'"
      by (auto simp: clear_def)
    from save_result[OF sv] s2' False
    have "events s2 = events s @ [Saved initial_checkpoint, Logged INFO StartingFresh]"
      "ckpt s2 = c0"
      by (simp_all add: log_message_def add_event_def s1_def c0_def)
    moreover have "page_order (last_page c0, None)
        [Saved initial_checkpoint, Logged INFO StartingFresh] = Some (last_page c0, None)"
      using False by (simp add: c0_def)
    ultimately show ?thesis by blast
  qed
  then obtain evs0 where ev0: "events s2 = events s @ evs0" and c2: "ckpt s2 = c0"
    and o0: "page_order (last_page c0, None) evs0 = Some (last_page c0, None)" by blast
  define s3 where
    "s3 = log_message (StartingFrom (last_page c0)) INFO (log_message Starting INFO s2)"
  from run s2 c2 have "\<exists>n s4. page_loop env (last_page c0) 0 s3 = Some (n, s4)
      \<and> s' = log_message (ProcessCompleted n) INFO s4"
    unfolding run_bulk_update_def Let_def s1_def s3_def
    by (auto split: option.splits if_splits)
  then obtain n s4 where
    loop: "page_loop env (last_page c0) 0 s3 = Some (n, s4)"
    and s': "s' = log_message (ProcessCompleted n) INFO s4" by blast
  have "last_page (ckpt s3) = last_page c0"
    by (simp add: s3_def log_message_def add_event_def c2)
  with page_loop_order[OF loop] obtain evs st where
    evs: "events s4 = events s3 @ evs" "page_order (last_page c0, None) evs = Some st"
    by auto
  obtain p pending where st: "st = (p, pending)" by (cases st)
  have "events s' = events s @ (evs0 @ [Logged INFO Starting,
      Logged INFO (StartingFrom (last_page c0))] @ evs @ [Logged INFO (ProcessCompleted n)])"
    by (simp add: s' evs(1) s3_def log_message_def add_event_def ev0)
  moreover have "page_order (last_page c0, None) (evs0 @ [Logged INFO Starting,
      Logged INFO (StartingFrom (last_page c0))] @ evs @ [Logged INFO (ProcessCompleted n)])
      = Some st"
    by (simp add: page_order_append o0 evs(2) st)
  ultimately show ?thesis unfolding c0_def by blast
qed

theorem page_advance_order_witness:
  "run_bulk_update ten_env True ten_state =
     Some \<lparr>events = ten_trace,
            ckpt = \<lparr>processed_skus = [1, 2, 3, 4, 5, 6, 7, 8, 9, 10], last_page = 2\<rparr>,
            disk = Present (Inr \<lparr>processed_skus = [1, 2, 3, 4, 5, 6, 7, 8, 9, 10],
                                  last_page = 2\<rparr>)\<rparr>
   \<and> page_order (1, None) ten_trace = Some (2, None)"
proof -
  have run: "run_bulk_update ten_env True ten_state =
     Some \<lparr>events = ten_trace,
            ckpt = \<lparr>processed_skus = [1, 2, 3, 4, 5, 6, 7, 8, 9, 10], last_page = 2\<rparr>,
            disk = Present (Inr \<lparr>processed_skus = [1, 2, 3, 4, 5, 6, 7, 8, 9, 10],
                                  last_page = 2\<rparr>)\<rparr>"
    by code_simp
  from page_advance_order[OF run] obtain st where
    "page_order (1, None) ten_trace = Some st"
    by (auto simp: ten_state_def load_def)
  moreover have "page_order (1, None) ten_trace = Some (2, None)" by code_simp
  ultimately show ?thesis using run by simp
qed

subsection \<open>A run behind a session that stays unauthorized\<close>

lemma nda_no_dispatch: "\<not> list_ex is_dispatch evs \<Longrightarrow> no_dispatch_after_401 evs"
  by (induction evs) simp_all

lemma nda_append_clean:
  "\<not> list_ex is_unauthorized a \<Longrightarrow> no_dispatch_after_401 (a @ b) = no_dispatch_after_401 b"
  by (induction a) simp_all

lemma nda_append:
  "no_dispatch_after_401 a \<Longrightarrow> no_dispatch_after_401 b \<Longrightarrow>
     (list_ex is_unauthorized a \<longrightarrow> \<not> list_ex is_dispatch b) \<Longrightarrow>
     no_dispatch_after_401 (a @ b)"
  by (induction a) auto

text \<open>
  The exchanges of a request that ends with a response: all answered, with 429 until
  the last one.
\<close>

lemma safe_request_exchanges:
  assumes "safe_request session req s = Some y"
  shows "\<forall>r. fst y = Inr (Some r) \<longrightarrow> grows (exchange_status (status_code r)) s (snd y)"
proof (rule safe_request.raw_induct[where P = "\<lambda>session req s y.
     \<forall>r. fst y = Inr (Some r) \<longrightarrow> grows (exchange_status (status_code r)) s (snd y)",
     OF _ assms], goal_cases)
  case (1 f session req s y)
  show ?case
  proof (cases "session (events s) req")
    case (Inl e)
    with 1(2) show ?thesis by auto
  next
    case (Inr response)
    note answered = this
    define s1 where "s1 = add_event (Exchange req (Inr (status_code response))) s"
    show ?thesis
    proof (cases "status_code response = 429")
      case False
      with 1(2) answered have "y = (Inr (Some response), s1)" by (simp add: s1_def)
      moreover have "grows (exchange_status (status_code response)) s s1"
        unfolding s1_def by (rule grows_add_event) (simp add: exchange_status_def)
      ultimately show ?thesis by simp
    next
      case True
      note is429 = this
      show ?thesis
      proof (cases "retry_after_seconds response")
        case (Inl e)
        with 1(2) answered is429 show ?thesis by (auto simp: Let_def)
      next
        case (Inr n)
        note seconds = this
        define s1' where "s1' = log_message (RateLimitHit n) WARNING s1"
        show ?thesis
        proof (cases "time_sleep n s1'")
          case (Inl e)
          with 1(2) answered is429 seconds show ?thesis
            by (auto simp: Let_def s1_def s1'_def)
        next
          case (Inr s2)
          with 1(2) answered is429 seconds
          have rec: "f session req s2 = Some y" by (simp add: s1_def s1'_def)
          from Inr have s2: "s2 = add_event (Slept n) s1'"
            by (auto simp: time_sleep_def split: if_splits)
          have "grows (exchange_status c) s s2" for c
            unfolding grows_def s2 s1'_def s1_def
            by (simp add: add_event_def log_message_def exchange_status_def is429)
          with 1(1)[OF rec] show ?thesis by (blast intro: grows_trans)
        qed
      qed
    qed
  qed
qed

lemma exchange_status_authorized:
  "exchange_status c e \<Longrightarrow> c \<noteq> 401 \<Longrightarrow> \<not> is_unauthorized e"
proof (cases e)
  case (Exchange q out)
  assume "exchange_status c e" "c \<noteq> 401"
  with Exchange show ?thesis
    by (cases out) (auto simp: exchange_status_def is_unauthorized_def)
qed (simp_all add: is_unauthorized_def)

lemma listing_clean:
  assumes "safe_request session req s = Some (Inr (Some response), s1)"
    and "status_code response = 200"
  obtains evs where "events s1 = events s @ evs" "\<not> list_ex is_dispatch evs"
    "\<not> list_ex is_unauthorized evs"
proof -
  from safe_request_exchanges[OF assms(1)] assms(2)
  obtain evs where evs: "events s1 = events s @ evs" "list_all (exchange_status 200) evs"
    by (auto simp: grows_def)
  from listing_grows[OF assms(1), of "(0, None)"] evs(1)
  have "\<not> list_ex is_dispatch evs" by auto
  moreover have "\<not> list_ex is_unauthorized evs"
    using evs(2) exchange_status_authorized[of 200]
    by (auto simp: list_all_iff list_ex_iff)
  ultimately show ?thesis using evs(1) that by blast
qed

lemma page_iteration_dispatch:
  assumes it: "page_iteration env page n s = Some t"
  shows "\<exists>evs n' s'. events s' = events s @ evs \<and>
           ((t = Break (n', s') \<and> \<not> list_ex is_dispatch evs)
            \<or> (t = Continue (n', s') \<and>
                 (\<forall>rest. no_dispatch_after_401 rest \<longrightarrow>
                    (list_ex is_unauthorized evs \<longrightarrow> \<not> list_ex is_dispatch rest) \<longrightarrow>
                    no_dispatch_after_401 (evs @ rest))))"
  using it
proof (cases rule: page_iteration_cases)
  case (stop x s1 m l)
  from listing_grows[OF stop(1), of "(0, None)"] obtain evs where
    evs: "events s1 = events s @ evs" "\<not> list_ex is_dispatch evs" by blast
  have "events (log_message m l s1) = events s @ (evs @ [Logged l m])"
    by (simp add: log_message_def add_event_def evs(1))
  moreover have "\<not> list_ex is_dispatch (evs @ [Logged l m])"
    using evs(2) by (simp add: is_dispatch_def)
  ultimately show ?thesis using stop(2) by blast
next
  case (fatal x s1 e s2)
  from listing_grows[OF fatal(1), of "(0, None)"] obtain evs where
    evs: "events s1 = events s @ evs" "\<not> list_ex is_dispatch evs" by blast
  from save_result[OF fatal(2)]
  have "events s2 = events s @ (evs @ [Logged CRITICAL (FatalError e),
      Saved (ckpt (log_message (FatalError e) CRITICAL s1))])"
    by (simp add: log_message_def add_event_def evs(1))
  moreover have "\<not> list_ex is_dispatch (evs @ [Logged CRITICAL (FatalError e),
      Saved (ckpt (log_message (FatalError e) CRITICAL s1))])"
    using evs(2) by (simp add: is_dispatch_def)
  ultimately show ?thesis using fatal(3) by blast
next
  case (continue response s1 ids n' s2 s3)
  from listing_clean[OF continue(1,2)] obtain evs0 where
    evs0: "events s1 = events s @ evs0" "\<not> list_ex is_dispatch evs0"
      "\<not> list_ex is_unauthorized evs0" by blast
  define s1' where "s1' = add_event (Dispatched page ids)
          (log_message (ProcessingPage page (length ids)) INFO s1)"
  from run_page_order[OF continue(3)[folded s1'_def]] obtain evs1 where
    evs1: "events s2 = events s1' @ evs1" "\<not> list_ex is_dispatch evs1" by auto
  define head where "head = evs0 @ [Logged INFO (ProcessingPage page (length ids)),
      Dispatched page ids]"
  define tail where "tail = evs1 @ [Saved (update_page (ckpt s2) (page + 1))]"
  from save_result[OF continue(4)]
  have ev: "events s3 = events s @ (head @ tail)"
    by (simp add: add_event_def evs1(1) s1'_def log_message_def evs0(1) head_def tail_def)
  have h: "\<not> list_ex is_unauthorized head"
    using evs0(3) by (simp add: head_def is_unauthorized_def)
  have tl: "\<not> list_ex is_dispatch tail"
    using evs1(2) by (simp add: tail_def is_dispatch_def)
  have "no_dispatch_after_401 ((head @ tail) @ rest)"
    if "no_dispatch_after_401 rest"
      "list_ex is_unauthorized (head @ tail) \<longrightarrow> \<not> list_ex is_dispatch rest" for rest
  proof -
    from that h have "list_ex is_unauthorized tail \<longrightarrow> \<not> list_ex is_dispatch rest" by simp
    with nda_no_dispatch[OF tl] that(1) have "no_dispatch_after_401 (tail @ rest)"
      by (rule nda_append)
    with h show ?thesis by (simp add: nda_append_clean)
  qed
  with ev continue(5) show ?thesis by blast
qed

lemma page_iteration_expired:
  assumes "stays_unauthorized env" "list_ex is_unauthorized (events s)"
    and it: "page_iteration env page n s = Some t"
  shows "\<exists>s'. t = Break (n, s')"
proof -
  from assms(1,2) have
    "case list_ids env (events s) (Request GET (SkuIds page 50) None) of
       Inl e \<Rightarrow> False | Inr response \<Rightarrow> status_code response = 401"
    unfolding stays_unauthorized_def by blast
  then obtain response where
    a: "list_ids env (events s) (Request GET (SkuIds page 50) None) = Inr response"
    and c: "status_code response = 401"
    by (cases "list_ids env (events s) (Request GET (SkuIds page 50) None)") auto
  from c have "status_code response \<noteq> 429" by simp
  from safe_request_answered[where session = "list_ids env" and s = s
      and req = "Request GET (SkuIds page 50) None", OF a this] it c
  show ?thesis
    by (auto simp: page_iteration_def ok_def)
qed

lemma page_loop_unauthorized:
  assumes "page_loop env page n s = Some y"
  shows "stays_unauthorized env \<longrightarrow>
     (\<exists>evs. events (snd y) = events s @ evs \<and> no_dispatch_after_401 evs
        \<and> (list_ex is_unauthorized (events s) \<longrightarrow> \<not> list_ex is_dispatch evs))"
proof (rule page_loop.raw_induct[where P = "\<lambda>env page n s y. stays_unauthorized env \<longrightarrow>
     (\<exists>evs. events (snd y) = events s @ evs \<and> no_dispatch_after_401 evs
        \<and> (list_ex is_unauthorized (events s) \<longrightarrow> \<not> list_ex is_dispatch evs))",
     OF _ assms], goal_cases)
  case (1 f env page n s y)
  show ?case
  proof
    assume stays: "stays_unauthorized env"
    from 1(2) obtain t where it: "page_iteration env page n s = Some t"
      by (auto split: option.splits)
    from page_iteration_dispatch[OF it] obtain evs n' s' where
      ev: "events s' = events s @ evs"
      and t: "(t = Break (n', s') \<and> \<not> list_ex is_dispatch evs)
            \<or> (t = Continue (n', s') \<and>
                 (\<forall>rest. no_dispatch_after_401 rest \<longrightarrow>
                    (list_ex is_unauthorized evs \<longrightarrow> \<not> list_ex is_dispatch rest) \<longrightarrow>
                    no_dispatch_after_401 (evs @ rest)))" by blast
    from t show "\<exists>evs. events (snd y) = events s @ evs \<and> no_dispatch_after_401 evs
        \<and> (list_ex is_unauthorized (events s) \<longrightarrow> \<not> list_ex is_dispatch evs)"
    proof
      assume b: "t = Break (n', s') \<and> \<not> list_ex is_dispatch evs"
      with 1(2) it have "y = (n', s')" by simp
      with ev b nda_no_dispatch[of evs] show ?thesis by auto
    next
      assume c: "t = Continue (n', s') \<and>
                 (\<forall>rest. no_dispatch_after_401 rest \<longrightarrow>
                    (list_ex is_unauthorized evs \<longrightarrow> \<not> list_ex is_dispatch rest) \<longrightarrow>
                    no_dispatch_after_401 (evs @ rest))"
      with page_iteration_expired[OF stays _ it]
      have fresh: "\<not> list_ex is_unauthorized (events s)" by auto
      from c 1(2) it have "f env (page + 1) n' s' = Some y" by simp
      from 1(1)[OF this] stays obtain evs' where
        evs': "events (snd y) = events s' @ evs'" "no_dispatch_after_401 evs'"
        "list_ex is_unauthorized (events s') \<longrightarrow> \<not> list_ex is_dispatch evs'"
        by auto
      from evs'(3) ev have "list_ex is_unauthorized evs \<longrightarrow> \<not> list_ex is_dispatch evs'"
        by simp
      with c evs'(2) have "no_dispatch_after_401 (evs @ evs')" by blast
      moreover have "events (snd y) = events s @ (evs @ evs')" by (simp add: evs'(1) ev)
      ultimately show ?thesis using fresh by blast
    qed
  qed
qed

text \<open>
  C1, amended. An update that is answered 401 returns \<^verbatim>\<open>False\<close> and raises nothing.
  The runner does not read the results of the workers: a run stops dispatching at its
  own listing request. So when the session stays unauthorized (every listing request
  after an exchange answered 401 is answered 401), no page is dispatched after the
  first exchange answered 401.
\<close>

theorem unauthorized_stops_run:
  "(put_file env (events s0) (update_request sku_id img alt) = Inr response
      \<and> status_code response = 401 \<longrightarrow>
      (\<exists>s1. update_image_alt env sku_id img alt s0 = Some (Inr False, s1)))
   \<and> (stays_unauthorized env \<and> run_bulk_update env resume s = Some s' \<longrightarrow>
      (\<exists>evs. events s' = events s @ evs \<and> no_dispatch_after_401 evs))"
proof (intro conjI impI)
  assume "put_file env (events s0) (update_request sku_id img alt) = Inr response
      \<and> status_code response = 401"
  then have a: "put_file env (events s0) (update_request sku_id img alt) = Inr response"
    and c: "status_code response = 401" by simp_all
  from c have "status_code response \<noteq> 429" by simp
  from safe_request_answered[where session = "put_file env" and s = s0
      and req = "update_request sku_id img alt", OF a this] c
  show "\<exists>s1. update_image_alt env sku_id img alt s0 = Some (Inr False, s1)"
    by (simp add: update_image_alt_def ok_def)
next
  assume "stays_unauthorized env \<and> run_bulk_update env resume s = Some s'"
  then have stays: "stays_unauthorized env" and run: "run_bulk_update env resume s = Some s'"
    by simp_all
  define s1 where "s1 = s\<lparr>ckpt := load (disk s)\<rparr>"
  from run have "\<exists>s2. (if \<not> resume
          then map_option (log_message StartingFresh INFO) (clear env s1)
          else Some s1) = Some s2"
    unfolding run_bulk_update_def Let_def s1_def by (auto split: option.splits)
  then obtain s2 where
    s2: "(if \<not> resume then map_option (log_message StartingFresh INFO) (clear env s1)
          else Some s1) = Some s2" by blast
  have "\<exists>evs0. events s2 = events s @ evs0 \<and> \<not> list_ex is_dispatch evs0
      \<and> \<not> list_ex is_unauthorized evs0"
  proof (cases resume)
    case True
    with s2 have "events s2 = events s @ []" by (auto simp: s1_def)
    then show ?thesis by (intro exI[of _ "[]"]) simp
  next
    case False
    with s2 obtain s1' where sv: "save env (s1\<lparr>ckpt := initial_checkpoint\<rparr>) = Some s1'"
      and s2': "s2 = log_message StartingFresh INFO s1'"
      by (auto simp: clear_def)
    from save_result[OF sv] s2'
    have "events s2 = events s @ [Saved initial_checkpoint, Logged INFO StartingFresh]"
      by (simp add: log_message_def add_event_def s1_def)
    then show ?thesis
      by (intro exI[of _ "[Saved initial_checkpoint, Logged INFO StartingFresh]"])
        (simp add: is_dispatch_def is_unauthorized_def)
  qed
  then obtain evs0 where ev0: "events s2 = events s @ evs0"
    and d0: "\<not> list_ex is_dispatch evs0" and u0: "\<not> list_ex is_unauthorized evs0" by blast
  define s3 where
    "s3 = log_message (StartingFrom (last_page (ckpt s2))) INFO (log_message Starting INFO s2)"
  from run s2 have "\<exists>n s4. page_loop env (last_page (ckpt s2)) 0 s3 = Some (n, s4)
      \<and> s' = log_message (ProcessCompleted n) INFO s4"
    unfolding run_bulk_update_def Let_def s1_def s3_def
    by (auto split: option.splits if_splits)
  then obtain n s4 where
    loop: "page_loop env (last_page (ckpt s2)) 0 s3 = Some (n, s4)"
    and s': "s' = log_message (ProcessCompleted n) INFO s4" by blast
  from page_loop_unauthorized[OF loop] stays obtain evs where
    evs: "events s4 = events s3 @ evs" "no_dispatch_after_401 evs" by auto
  define pre where "pre = evs0 @ [Logged INFO Starting,
      Logged INFO (StartingFrom (last_page (ckpt s2)))]"
  have pre: "\<not> list_ex is_unauthorized pre"
    using u0 by (simp add: pre_def is_unauthorized_def)
  have "events s' = events s @ (pre @ evs @ [Logged INFO (ProcessCompleted n)])"
    by (simp add: s' evs(1) s3_def log_message_def add_event_def ev0 pre_def)
  moreover have "no_dispatch_after_401 (evs @ [Logged INFO (ProcessCompleted n)])"
    using evs(2) by (intro nda_append) (simp_all add: is_dispatch_def is_unauthorized_def)
  then have "no_dispatch_after_401 (pre @ evs @ [Logged INFO (ProcessCompleted n)])"
    using pre by (simp add: nda_append_clean)
  ultimately show "\<exists>evs. events s' = events s @ evs \<and> no_dispatch_after_401 evs" by blast
qed

text \<open>
  C1, as the specification words it, fails for \<open>demo_env 401\<close>: the update of SKU 7 on
  page 1 is answered 401, the listing of page 2 is answered 200, and page 2 is
  dispatched.
\<close>

theorem dispatch_after_unauthorized:
  "run_bulk_update (demo_env 401) True demo_state =
     Some \<lparr>events = continuing_trace, ckpt = \<lparr>processed_skus = [], last_page = 3\<rparr>,
            disk = Present (Inr \<lparr>processed_skus = [], last_page = 3\<rparr>)\<rparr>
   \<and> filter is_unauthorized continuing_trace =
       [Exchange (Request PUT (SkuFile 7 (JInt 11))
          (Some [(''Id'', JInt 11), (''Label'', JStr ''dipirona-1g_1''),
                 (''Name'', JStr ''front''), (''Text'', JStr ''dipirona-1g_1'')])) (Inr 401),
        Exchange (Request PUT (SkuFile 8 (JInt 11))
          (Some [(''Id'', JInt 11), (''Label'', JStr ''dipirona-1g_1''),
                 (''Name'', JStr ''front''), (''Text'', JStr ''dipirona-1g_1'')])) (Inr 401)]
   \<and> filter is_dispatch continuing_trace = [Dispatched 1 [7], Dispatched 2 [8]]
   \<and> \<not> no_dispatch_after_401 continuing_trace"
  by code_simp

theorem unauthorized_stops_run_witness:
  "stays_unauthorized expired_env
   \<and> run_bulk_update expired_env True demo_state =
       Some \<lparr>events = expired_trace, ckpt = \<lparr>processed_skus = [], last_page = 2\<rparr>,
              disk = Present (Inr \<lparr>processed_skus = [], last_page = 2\<rparr>)\<rparr>
   \<and> no_dispatch_after_401 expired_trace
   \<and> filter is_dispatch expired_trace = [Dispatched 1 [7]]
   \<and> (\<exists>s1. update_image_alt expired_env 7 (hd demo_images) ''dipirona-1g_1'' demo_state
          = Some (Inr False, s1))"
proof -
  have stays: "stays_unauthorized expired_env"
    by (simp add: stays_unauthorized_def expired_env_def demo_response_def)
  have run: "run_bulk_update expired_env True demo_state =
       Some \<lparr>events = expired_trace, ckpt = \<lparr>processed_skus = [], last_page = 2\<rparr>,
              disk = Present (Inr \<lparr>processed_skus = [], last_page = 2\<rparr>)\<rparr>"
    by code_simp
  have put: "put_file expired_env (events demo_state)
      (update_request 7 (hd demo_images) ''dipirona-1g_1'')
      = Inr (demo_response 401 (Inl JSONDecodeError))
    \<and> status_code (demo_response 401 (Inl JSONDecodeError) :: unit response) = 401"
    by (simp add: expired_env_def demo_env_def demo_response_def)
  have d: "filter is_dispatch expired_trace = [Dispatched 1 [7]]" by code_simp
  from unauthorized_stops_run[of expired_env demo_state 7 "hd demo_images" "''dipirona-1g_1''"
      "demo_response 401 (Inl JSONDecodeError)" True demo_state
      "\<lparr>events = expired_trace, ckpt = \<lparr>processed_skus = [], last_page = 2\<rparr>,
              disk = Present (Inr \<lparr>processed_skus = [], last_page = 2\<rparr>)\<rparr>"]
    stays run put
  have "(\<exists>s1. update_image_alt expired_env 7 (hd demo_images) ''dipirona-1g_1'' demo_state
          = Some (Inr False, s1))
     \<and> no_dispatch_after_401 expired_trace"
    by (simp add: demo_state_def)
  with stays run d show ?thesis by simp
qed

end
